theory Spec2Isabelle
  imports Main "HOL-Library.Word" "HOL-Library.Sublist"
begin

unbundle bit_operations_syntax

text \<open>
  The Artifacts application: a page component (\<open>src/app/page.tsx\<close>) that sends a prompt
  to the route handler \<open>POST /api/generateCode\<close>, reads the streamed answer into a code
  artifact, watches the preview for errors and asks for fixes on its own; and the route
  handler, which forwards the model's output and appends a cleaned copy when the output
  holds a markdown fence. The first part of the theory translates the two files; the
  second part proves properties of the translation.
\<close>

section \<open>JavaScript strings\<close>

text \<open>
  A JavaScript string is a sequence of UTF-16 code units. Literals of the source are
  written \<open>js ''...''\<close>; the two quote characters are given by their code.
\<close>

type_synonym cu = "16 word"
type_synonym jstring = "cu list"

definition js :: "string \<Rightarrow> jstring" where
  "js s = map of_char s"

definition squote :: cu where
  "squote = 0x27"

definition dquote :: cu where
  "dquote = 0x22"

definition newline :: cu where
  "newline = 0x0A"

text \<open>\<open>String.prototype.includes\<close>: the pattern occurs at some position.\<close>

fun includes_str :: "jstring \<Rightarrow> jstring \<Rightarrow> bool" where
  "includes_str [] p = (p = [])"
| "includes_str (c # cs) p = (prefix p (c # cs) \<or> includes_str cs p)"

text \<open>
  \<open>String.prototype.trim\<close> removes the code units of WhiteSpace and LineTerminator
  (ECMAScript 12.2 and 12.3) from both ends.
\<close>

definition isWhiteSpace :: "cu \<Rightarrow> bool" where
  "isWhiteSpace c =
     (c = 0x09 \<or> c = 0x0A \<or> c = 0x0B \<or> c = 0x0C \<or> c = 0x0D \<or> c = 0x20 \<or> c = 0xA0
      \<or> c = 0x1680 \<or> (0x2000 \<le> c \<and> c \<le> 0x200A) \<or> c = 0x2028 \<or> c = 0x2029
      \<or> c = 0x202F \<or> c = 0x205F \<or> c = 0x3000 \<or> c = 0xFEFF)"

definition trim :: "jstring \<Rightarrow> jstring" where
  "trim s = rev (dropWhile isWhiteSpace (rev (dropWhile isWhiteSpace s)))"

section \<open>Stream records and the code accumulator (page.tsx, createApp and fixCode)\<close>

text \<open>
  One decoded record of the response, \<open>{ choices: [{ text, cleanedCode? }] }\<close>.
  A missing field is \<open>None\<close>: \<open>result.choices\<close> is tested for presence,
  \<open>c.text || ''\<close> reads a missing or empty text as the empty string, and
  \<open>cleanedCode !== undefined\<close> tests for presence.
\<close>

record choice =
  text_of :: "jstring option"
  cleanedCode :: "jstring option"

record result =
  choices :: "choice list option"

definition choice_text :: "choice \<Rightarrow> jstring" where
  "choice_text c = (case text_of c of None \<Rightarrow> [] | Some t \<Rightarrow> t)"

text \<open>
  The body of the \<open>for await\<close> loop for a record that has \<open>choices\<close>
  (page.tsx lines 79 to 85): the joined texts are appended, then a
  \<open>cleanedCode\<close> on the first choice replaces the whole buffer.
\<close>

definition accumulate_step :: "jstring \<Rightarrow> choice list \<Rightarrow> jstring" where
  "accumulate_step fullCode cs =
     (let newText = concat (map choice_text cs);
          fullCode' = fullCode @ newText
      in case cs of
           [] \<Rightarrow> fullCode'
         | c # _ \<Rightarrow> (case cleanedCode c of None \<Rightarrow> fullCode' | Some cleaned \<Rightarrow> cleaned))"

fun accumulate :: "jstring \<Rightarrow> result list \<Rightarrow> jstring" where
  "accumulate fullCode [] = fullCode"
| "accumulate fullCode (r # rs) =
     (case choices r of
        None \<Rightarrow> accumulate fullCode rs
      | Some cs \<Rightarrow> accumulate (accumulate_step fullCode cs) rs)"

text \<open>
  The two events of the protocol and the records that carry them, as the server writes
  them (route handler, lines 132 and 152): \<open>{ choices: [{ text }] }\<close> for a
  fragment and \<open>{ choices: [{ text: '', cleanedCode }] }\<close> for the final record.
\<close>

datatype StreamEvent = Fragment jstring | FinalCleaned jstring

fun record_of :: "StreamEvent \<Rightarrow> result" where
  "record_of (Fragment t) =
     \<lparr>choices = Some [\<lparr>text_of = Some t, cleanedCode = None\<rparr>]\<rparr>"
| "record_of (FinalCleaned t) =
     \<lparr>choices = Some [\<lparr>text_of = Some [], cleanedCode = Some t\<rparr>]\<rparr>"

text \<open>The artifact at the end of a stream: \<open>let fullCode = ''\<close>, then the loop.\<close>

definition final_artifact :: "StreamEvent list \<Rightarrow> jstring" where
  "final_artifact evs = accumulate [] (map record_of evs)"


section \<open>Regular expressions of the error watcher and the auto-fix prompt\<close>

definition isQuote :: "cu \<Rightarrow> bool" where
  "isQuote c = (c = squote \<or> c = dquote)"

text \<open>The class \<open>\w\<close>, that is \<open>[A-Za-z0-9_]\<close>.\<close>

definition isWordChar :: "cu \<Rightarrow> bool" where
  "isWordChar c =
     ((0x41 \<le> c \<and> c \<le> 0x5A) \<or> (0x61 \<le> c \<and> c \<le> 0x7A) \<or> (0x30 \<le> c \<and> c \<le> 0x39)
      \<or> c = 0x5F)"

text \<open>
  \<open>String.prototype.match\<close> with a regular expression without the \<open>g\<close> flag: the
  pattern is tried at every position from the left, and the first position where it
  matches gives the capture group. The argument is the pattern anchored at the start
  of its input.
\<close>

fun regex_search :: "(jstring \<Rightarrow> 'a option) \<Rightarrow> jstring \<Rightarrow> 'a option" where
  "regex_search m [] = m []"
| "regex_search m (c # cs) =
     (case m (c # cs) of Some r \<Rightarrow> Some r | None \<Rightarrow> regex_search m cs)"

text \<open>
  \<open>['"]([^'"]+)['"]\<close> anchored: a quote, the longest run of non-quotes, which must
  not be empty, and a quote. A shorter run is followed by a non-quote, so backtracking
  finds nothing more.
\<close>

definition quoted_at :: "jstring \<Rightarrow> jstring option" where
  "quoted_at s =
     (case s of
        [] \<Rightarrow> None
      | q # r \<Rightarrow>
          if isQuote q then
            (let m = takeWhile (\<lambda>c. \<not> isQuote c) r;
                 r' = dropWhile (\<lambda>c. \<not> isQuote c) r
             in if m \<noteq> [] \<and> r' \<noteq> [] then Some m else None)
          else None)"

text \<open>\<open>/Cannot find module ['"]([^'"]+)['"]/\<close> anchored.\<close>

definition cannot_find_module_at :: "jstring \<Rightarrow> jstring option" where
  "cannot_find_module_at s =
     (if prefix (js ''Cannot find module '') s
      then quoted_at (drop (length (js ''Cannot find module '')) s)
      else None)"

text \<open>
  \<open>/(\w+) is not defined/\<close> anchored: the longest run of word characters, not
  empty, followed by the literal text. The literal starts with a space, which is not a
  word character, so a shorter run never matches.
\<close>

definition not_defined_at :: "jstring \<Rightarrow> jstring option" where
  "not_defined_at s =
     (let m = takeWhile isWordChar s; r = dropWhile isWordChar s
      in if m \<noteq> [] \<and> prefix (js '' is not defined'') r then Some m else None)"

section \<open>The error watcher's extraction (page.tsx, checkForErrors, lines 179 to 197)\<close>

text \<open>
  The arguments are \<open>bodyText\<close> and the \<open>textContent\<close> of the elements that
  \<open>querySelectorAll('.sp-error, .error-message, [data-error="true"]')\<close> returns.
\<close>

definition extract_error :: "jstring \<Rightarrow> jstring list \<Rightarrow> jstring" where
  "extract_error bodyText errorElements =
     (if includes_str bodyText (js ''Cannot find module'')
         \<or> includes_str bodyText (js ''Module not found'')
      then (case regex_search cannot_find_module_at bodyText of
              Some m \<Rightarrow> js ''Cannot find module '' @ [squote] @ m @ [squote]
            | None \<Rightarrow> [])
      else if includes_str bodyText (js ''is not defined'')
      then (case regex_search not_defined_at bodyText of
              Some m \<Rightarrow> m @ js '' is not defined''
            | None \<Rightarrow> [])
      else (case errorElements of
              [] \<Rightarrow> []
            | t # _ \<Rightarrow> if t \<noteq> [] then t else js ''Unknown error''))"

section \<open>The fix instruction of the auto-fix controller (autoFixError, lines 217 to 228)\<close>

definition autoFixPrompt_of :: "jstring \<Rightarrow> jstring" where
  "autoFixPrompt_of errorMessage =
     (if includes_str errorMessage (js ''Cannot find module'')
         \<or> includes_str errorMessage (js ''Module not found'')
      then (let moduleName =
                  (case regex_search quoted_at errorMessage of Some m \<Rightarrow> m | None \<Rightarrow> [])
            in js ''Fix the import error for module '' @ [dquote] @ moduleName @ [dquote]
               @ js ''. If this is an external library, remove it and implement the functionality using only React, TypeScript, and Tailwind CSS. If it''
               @ [squote] @ js ''s a typo, correct it.'')
      else if includes_str errorMessage (js ''is not defined'')
      then (let undefinedVar =
                  (case regex_search not_defined_at errorMessage of Some m \<Rightarrow> m | None \<Rightarrow> [])
            in js ''Fix the error: '' @ [dquote] @ undefinedVar @ js '' is not defined''
               @ [dquote]
               @ js ''. Make sure to properly import or define this variable/function.'')
      else js ''Fix this error: '' @ errorMessage)"

section \<open>The page component (page.tsx, Page)\<close>

datatype role = User | Assistant | System

record message =
  role :: role
  content :: jstring

text \<open>
  The state that React keeps for the ten \<open>useState\<close> hooks of \<open>Page\<close>.

  Each call of \<open>Page\<close> (a render) binds \<open>const [isGenerating, setIsGenerating] =
  useState(false)\<close> and its nine siblings: inside that call the state variables are
  constants, holding the state at the time of the render, and the functions
  \<open>createApp\<close>, \<open>fixCode\<close>, \<open>checkForErrors\<close> and \<open>autoFixError\<close> declared
  in the call read those constants. A setter does not change them; it changes the
  state React keeps, which the next render reads. So every function below takes
  the render \<open>r\<close> whose bindings it reads and the world it writes to.
\<close>

record state =
  prompt :: jstring
  generatedCode :: jstring
  isGenerating :: bool
  messages :: "message list"
  fixPrompt :: jstring
  showFixInput :: bool
  hasError :: bool
  isAutoFixing :: bool
  autoFixAttempts :: nat
  lastError :: jstring

text \<open>\<open>useState\<close>'s initial values (lines 42 to 51).\<close>

definition initial_state :: state where
  "initial_state =
     \<lparr>prompt = [], generatedCode = [], isGenerating = False, messages = [],
      fixPrompt = [], showFixInput = False, hasError = False, isAutoFixing = False,
      autoFixAttempts = 0, lastError = []\<rparr>"

text \<open>The body of a \<open>POST\<close> to \<open>/api/generateCode\<close>.\<close>

record request =
  req_prompt :: jstring
  req_messages :: "message list"
  req_currentCode :: "jstring option"

text \<open>
  What a call receives after \<open>await fetch\<close>: the fetch rejects, or the status is not
  ok, or the body is read by \<open>readStream\<close>, which yields the given records and then
  ends (\<open>True\<close>) or throws because the transport failed (\<open>False\<close>).
\<close>

datatype response = NetworkFailure | HttpError | Body "result list" bool

text \<open>A call suspended at \<open>await fetch\<close>, with the render whose bindings it holds.\<close>

datatype suspended = CreateApp_call state | FixCode_call state

text \<open>
  The world outside one call: React's state, the requests sent so far, the calls
  waiting for their response, the pending \<open>setTimeout(() => checkForErrors(), 3000)\<close>
  callbacks (each is the \<open>checkForErrors\<close> of one render; they have the same delay,
  so they fire in the order they were set), and the alerts shown.
\<close>

record world =
  st :: state
  requests :: "request list"
  awaiting :: "suspended list"
  timeouts :: "state list"
  alerts :: "jstring list"

definition initial_world :: world where
  "initial_world =
     \<lparr>st = initial_state, requests = [], awaiting = [], timeouts = [], alerts = []\<rparr>"

text \<open>
  The \<open>for await\<close> loop with its \<open>setGeneratedCode(fullCode)\<close> (lines 77 to 89 and
  135 to 147): the local \<open>fullCode\<close> and the state are threaded through the records.
\<close>

fun consume :: "result list \<Rightarrow> jstring \<times> state \<Rightarrow> jstring \<times> state" where
  "consume [] acc = acc"
| "consume (r # rs) (fullCode, s) =
     (case choices r of
        None \<Rightarrow> consume rs (fullCode, s)
      | Some cs \<Rightarrow>
          (let fullCode' = accumulate_step fullCode cs
           in consume rs (fullCode', s\<lparr>generatedCode := fullCode'\<rparr>)))"

text \<open>\<open>createApp\<close> up to \<open>await fetch\<close> (lines 54 to 70).\<close>

definition createApp :: "state \<Rightarrow> world \<Rightarrow> world" where
  "createApp r w =
     w\<lparr>st := (st w)\<lparr>generatedCode := [], isGenerating := True,
                      messages := [\<lparr>role = User, content = prompt r\<rparr>],
                      showFixInput := False, hasError := False, autoFixAttempts := 0\<rparr>,
       requests := requests w @
         [\<lparr>req_prompt = prompt r, req_messages = [], req_currentCode = None\<rparr>],
       awaiting := awaiting w @ [CreateApp_call r]\<rparr>"

text \<open>\<open>createApp\<close> after \<open>await fetch\<close> (lines 72 to 104).\<close>

definition createApp_resume :: "state \<Rightarrow> response \<Rightarrow> world \<Rightarrow> world" where
  "createApp_resume r resp w =
     (let failed = w\<lparr>alerts := alerts w @ [js ''Failed to generate code. Please try again.'']\<rparr>;
          w1 =
            (case resp of
               NetworkFailure \<Rightarrow> failed
             | HttpError \<Rightarrow> failed
             | Body rs ended \<Rightarrow>
                 (let (fullCode, s1) = consume rs ([], st w)
                  in if ended
                     then w\<lparr>st := s1\<lparr>messages := messages s1 @
                                        [\<lparr>role = Assistant, content = fullCode\<rparr>],
                                      showFixInput := True\<rparr>,
                            timeouts := timeouts w @ [r]\<rparr>
                     else w\<lparr>st := s1,
                            alerts := alerts w @
                              [js ''Failed to generate code. Please try again.'']\<rparr>))
      in w1\<lparr>st := (st w1)\<lparr>isGenerating := False, prompt := []\<rparr>\<rparr>)"

text \<open>\<open>const fixRequest = customFixPrompt || fixPrompt\<close> (line 109).\<close>

definition fixRequest_of :: "state \<Rightarrow> jstring option \<Rightarrow> jstring" where
  "fixRequest_of r customFixPrompt =
     (case customFixPrompt of
        None \<Rightarrow> fixPrompt r
      | Some c \<Rightarrow> if c \<noteq> [] then c else fixPrompt r)"

text \<open>
  \<open>fixCode\<close> up to \<open>await fetch\<close> (lines 108 to 128). The event argument only
  serves \<open>preventDefault\<close> and is left out.
\<close>

definition fixCode :: "state \<Rightarrow> jstring option \<Rightarrow> world \<Rightarrow> world" where
  "fixCode r customFixPrompt w =
     (let fixRequest = fixRequest_of r customFixPrompt
      in if trim fixRequest = [] then w
         else
           (let newMessages = messages r @ [\<lparr>role = User, content = fixRequest\<rparr>]
            in w\<lparr>st := (st w)\<lparr>isGenerating := True, messages := newMessages\<rparr>,
                 requests := requests w @
                   [\<lparr>req_prompt = fixRequest, req_messages = newMessages,
                     req_currentCode = Some (generatedCode r)\<rparr>],
                 awaiting := awaiting w @ [FixCode_call r]\<rparr>))"

text \<open>\<open>fixCode\<close> after \<open>await fetch\<close> (lines 130 to 163).\<close>

definition fixCode_resume :: "state \<Rightarrow> response \<Rightarrow> world \<Rightarrow> world" where
  "fixCode_resume r resp w =
     (let failed = w\<lparr>alerts := alerts w @ [js ''Failed to fix code. Please try again.'']\<rparr>;
          w1 =
            (case resp of
               NetworkFailure \<Rightarrow> failed
             | HttpError \<Rightarrow> failed
             | Body rs ended \<Rightarrow>
                 (let (fullCode, s1) = consume rs ([], st w)
                  in if ended
                     then w\<lparr>st := s1\<lparr>messages := messages s1 @
                                        [\<lparr>role = Assistant, content = fullCode\<rparr>],
                                      fixPrompt := [], hasError := False\<rparr>,
                            timeouts := timeouts w @ [r]\<rparr>
                     else w\<lparr>st := s1,
                            alerts := alerts w @
                              [js ''Failed to fix code. Please try again.'']\<rparr>))
      in w1\<lparr>st := (st w1)\<lparr>isGenerating := False, isAutoFixing := False\<rparr>\<rparr>)"

text \<open>\<open>autoFixError\<close> (lines 210 to 231).\<close>

definition autoFixError :: "state \<Rightarrow> jstring \<Rightarrow> world \<Rightarrow> world" where
  "autoFixError r errorMessage w =
     (if isAutoFixing r \<or> 3 \<le> autoFixAttempts r then w
      else fixCode r (Some (autoFixPrompt_of errorMessage))
             (w\<lparr>st := (st w)\<lparr>isAutoFixing := True,
                              autoFixAttempts := autoFixAttempts (st w) + 1\<rparr>\<rparr>))"

text \<open>
  What \<open>checkForErrors\<close> finds when it looks for the preview: no iframe, an iframe
  with no document, an access that throws, or a document with its body text
  (\<open>None\<close> when there is no body) and the text of its flagged elements.
\<close>

datatype preview =
  NoIframe | NoDocument | AccessDenied | Document "jstring option" "jstring list"

text \<open>\<open>checkForErrors\<close> (lines 167 to 207).\<close>

definition checkForErrors :: "state \<Rightarrow> preview \<Rightarrow> world \<Rightarrow> world" where
  "checkForErrors r p w =
     (if isGenerating r \<or> isAutoFixing r \<or> 3 \<le> autoFixAttempts r then w
      else
        (case p of
           NoIframe \<Rightarrow> w
         | NoDocument \<Rightarrow> w
         | AccessDenied \<Rightarrow> w
         | Document body errorElements \<Rightarrow>
             (let bodyText = (case body of None \<Rightarrow> [] | Some t \<Rightarrow> t);
                  errorMessage = extract_error bodyText errorElements
              in if errorMessage \<noteq> [] \<and> errorMessage \<noteq> lastError r
                 then autoFixError r errorMessage
                        (w\<lparr>st := (st w)\<lparr>lastError := errorMessage, hasError := True\<rparr>\<rparr>)
                 else w)))"

text \<open>The click handler of the start-over button (lines 306 to 314).\<close>

definition startOver :: "world \<Rightarrow> world" where
  "startOver w =
     w\<lparr>st := (st w)\<lparr>generatedCode := [], messages := [], showFixInput := False,
                      fixPrompt := [], hasError := False, autoFixAttempts := 0,
                      lastError := []\<rparr>\<rparr>"

text \<open>
  The event loop. A response arrives for the \<open>i\<close>-th waiting call, which resumes;
  the oldest pending timeout fires and runs its \<open>checkForErrors\<close> on what the
  preview shows then.
\<close>

definition deliver :: "nat \<Rightarrow> response \<Rightarrow> world \<Rightarrow> world" where
  "deliver i resp w =
     (if i < length (awaiting w)
      then (let w' = w\<lparr>awaiting := take i (awaiting w) @ drop (Suc i) (awaiting w)\<rparr>
            in case awaiting w ! i of
                 CreateApp_call r \<Rightarrow> createApp_resume r resp w'
               | FixCode_call r \<Rightarrow> fixCode_resume r resp w')
      else w)"

definition fire_timeout :: "preview \<Rightarrow> world \<Rightarrow> world" where
  "fire_timeout p w =
     (case timeouts w of
        [] \<Rightarrow> w
      | r # rest \<Rightarrow> checkForErrors r p (w\<lparr>timeouts := rest\<rparr>))"

text \<open>
  The interval of the effect (lines 234 to 242) is not part of this event loop. It
  calls the \<open>checkForErrors\<close> of the render in which the effect last ran, and the
  effect runs again only when \<open>generatedCode\<close>, \<open>isGenerating\<close> or
  \<open>autoFixAttempts\<close> has changed.
\<close>

text \<open>
  The user's actions, each through the handler of the latest render, whose bindings
  are the current state: typing into the two inputs (\<open>onChange\<close>), submitting the
  prompt form and submitting the fix form.
\<close>

definition type_prompt :: "jstring \<Rightarrow> world \<Rightarrow> world" where
  "type_prompt t w = w\<lparr>st := (st w)\<lparr>prompt := t\<rparr>\<rparr>"

definition type_fixPrompt :: "jstring \<Rightarrow> world \<Rightarrow> world" where
  "type_fixPrompt t w = w\<lparr>st := (st w)\<lparr>fixPrompt := t\<rparr>\<rparr>"

definition submit_prompt :: "world \<Rightarrow> world" where
  "submit_prompt w = createApp (st w) w"

definition submit_fix :: "world \<Rightarrow> world" where
  "submit_fix w = fixCode (st w) None w"

section \<open>Completion cleanup and the response stream (route handler, POST)\<close>

text \<open>
  Matching under the \<open>i\<close> flag compares canonical forms. Without the \<open>u\<close> flag
  the canonical form of a code unit is its upper case, except that a code unit above
  127 is never mapped into ASCII; the patterns here are ASCII, so only the ASCII
  letters need their upper case.
\<close>

definition canonicalize :: "cu \<Rightarrow> cu" where
  "canonicalize c = (if 0x61 \<le> c \<and> c \<le> 0x7A then c - 0x20 else c)"

text \<open>A literal pattern matches at the start of the input.\<close>

definition literal_at :: "bool \<Rightarrow> jstring \<Rightarrow> jstring \<Rightarrow> bool" where
  "literal_at ignoreCase pat s =
     (if ignoreCase then prefix (map canonicalize pat) (map canonicalize s)
      else prefix pat s)"

text \<open>The optional \<open>\n?\<close> at the end of each pattern takes a newline when there is one.\<close>

definition optional_newline :: "jstring \<Rightarrow> jstring" where
  "optional_newline s =
     (case s of [] \<Rightarrow> [] | c # cs \<Rightarrow> if c = newline then cs else c # cs)"

definition fence :: jstring where
  "fence = js ''```''"

text \<open>
  \<open>s.replace(/```tag\n?/g, '')\<close>, with the \<open>i\<close> flag when \<open>ignoreCase\<close>:
  the matches are found from the left, each search starting where the last match ended,
  and every match is deleted.
\<close>

function replace_fence :: "bool \<Rightarrow> jstring \<Rightarrow> jstring \<Rightarrow> jstring" where
  "replace_fence ignoreCase tag [] = []"
| "replace_fence ignoreCase tag (c # cs) =
     (if literal_at ignoreCase (fence @ tag) (c # cs)
      then replace_fence ignoreCase tag (optional_newline (drop (2 + length tag) cs))
      else c # replace_fence ignoreCase tag cs)"
  by pat_completeness auto
termination
  by (relation "measure (\<lambda>(i, tag, s). length s)")
     (auto simp: optional_newline_def split: list.splits dest!: arg_cong[where f = length])

text \<open>Lines 141 to 147 of the route handler.\<close>

definition cleanup :: "jstring \<Rightarrow> jstring" where
  "cleanup buffer =
     (let cleanedCode = buffer;
          cleanedCode = replace_fence True (js ''typescript'') cleanedCode;
          cleanedCode = replace_fence True (js ''tsx'') cleanedCode;
          cleanedCode = replace_fence True (js ''jsx'') cleanedCode;
          cleanedCode = replace_fence True (js ''javascript'') cleanedCode;
          cleanedCode = replace_fence False [] cleanedCode
      in trim cleanedCode)"

text \<open>
  A chunk of the model's stream is given by its \<open>choices[0]?.delta?.content\<close>,
  \<open>None\<close> when that is missing; \<open>|| ''\<close> reads a missing content as empty.
\<close>

definition delta_text :: "jstring option \<Rightarrow> jstring" where
  "delta_text d = (case d of None \<Rightarrow> [] | Some t \<Rightarrow> t)"

text \<open>
  The loop over the model's chunks (lines 126 to 136). The loop state is the records
  enqueued so far, each the object handed to \<open>JSON.stringify\<close>, and the buffer.
\<close>

fun forward_chunks ::
  "jstring option list \<Rightarrow> result list \<times> jstring \<Rightarrow> result list \<times> jstring" where
  "forward_chunks [] acc = acc"
| "forward_chunks (d # ds) (enqueued, buffer) =
     (let text = delta_text d
      in if text \<noteq> []
         then forward_chunks ds
                (enqueued @ [\<lparr>choices = Some [\<lparr>text_of = Some text, cleanedCode = None\<rparr>]\<rparr>],
                 buffer @ text)
         else forward_chunks ds (enqueued, buffer))"

text \<open>
  The records enqueued by \<open>start(controller)\<close> before it closes the stream, when the
  model's stream comes to its end.
\<close>

definition POST_stream :: "jstring option list \<Rightarrow> result list" where
  "POST_stream deltas =
     (let (enqueued, buffer) = forward_chunks deltas ([], [])
      in if includes_str buffer fence
         then enqueued @
                [\<lparr>choices = Some [\<lparr>text_of = Some [], cleanedCode = Some (cleanup buffer)\<rparr>]\<rparr>]
         else enqueued)"

section \<open>Outputs with fenced code\<close>








section \<open>The text decoder (\<open>new TextDecoder()\<close>, UTF-8)\<close>

text \<open>
  The UTF-8 decoder of the Encoding standard, one byte at a time. Its state is the code
  point being assembled, the bytes seen and needed for it, and the bounds on the next
  byte. A malformed sequence gives U+FFFD.
\<close>

record utf8_decoder =
  code_point :: "32 word"
  bytes_seen :: nat
  bytes_needed :: nat
  lower_boundary :: "8 word"
  upper_boundary :: "8 word"

definition utf8_initial :: utf8_decoder where
  "utf8_initial =
     \<lparr>code_point = 0, bytes_seen = 0, bytes_needed = 0,
      lower_boundary = 0x80, upper_boundary = 0xBF\<rparr>"

text \<open>A byte read when no sequence is open.\<close>

definition utf8_lead :: "8 word \<Rightarrow> utf8_decoder \<times> 32 word list" where
  "utf8_lead b =
     (if b \<le> 0x7F then (utf8_initial, [ucast b])
      else if 0xC2 \<le> b \<and> b \<le> 0xDF
      then (utf8_initial\<lparr>bytes_needed := 1, code_point := ucast (b AND 0x1F)\<rparr>, [])
      else if 0xE0 \<le> b \<and> b \<le> 0xEF
      then (utf8_initial\<lparr>lower_boundary := (if b = 0xE0 then 0xA0 else 0x80),
                         upper_boundary := (if b = 0xED then 0x9F else 0xBF),
                         bytes_needed := 2, code_point := ucast (b AND 0x0F)\<rparr>, [])
      else if 0xF0 \<le> b \<and> b \<le> 0xF4
      then (utf8_initial\<lparr>lower_boundary := (if b = 0xF0 then 0x90 else 0x80),
                         upper_boundary := (if b = 0xF4 then 0x8F else 0xBF),
                         bytes_needed := 3, code_point := ucast (b AND 0x07)\<rparr>, [])
      else (utf8_initial, [0xFFFD]))"

text \<open>
  One byte. A byte outside the bounds ends the open sequence with U+FFFD and is then
  read again as the first byte of a new one.
\<close>

definition utf8_byte :: "utf8_decoder \<Rightarrow> 8 word \<Rightarrow> utf8_decoder \<times> 32 word list" where
  "utf8_byte d b =
     (if bytes_needed d = 0 then utf8_lead b
      else if b < lower_boundary d \<or> upper_boundary d < b
      then (let (d', out) = utf8_lead b in (d', 0xFFFD # out))
      else
        (let d1 = d\<lparr>lower_boundary := 0x80, upper_boundary := 0xBF,
                     code_point := push_bit 6 (code_point d) OR ucast (b AND 0x3F),
                     bytes_seen := bytes_seen d + 1\<rparr>
         in if bytes_seen d1 \<noteq> bytes_needed d1 then (d1, [])
            else (utf8_initial, [code_point d1])))"

fun utf8_bytes :: "utf8_decoder \<Rightarrow> 8 word list \<Rightarrow> utf8_decoder \<times> 32 word list" where
  "utf8_bytes d [] = (d, [])"
| "utf8_bytes d (b # bs) =
     (let (d1, out1) = utf8_byte d b; (d2, out2) = utf8_bytes d1 bs
      in (d2, out1 @ out2))"

text \<open>A code point as UTF-16 code units.\<close>

definition utf16_of :: "32 word \<Rightarrow> jstring" where
  "utf16_of cp =
     (if cp < 0x10000 then [ucast cp]
      else (let v = cp - 0x10000
            in [0xD800 + ucast (drop_bit 10 v), 0xDC00 + ucast (v AND 0x3FF)]))"

text \<open>
  The \<open>TextDecoder\<close> object: the UTF-8 decoder and the flag that says whether the
  start of the stream, where a byte order mark is dropped, has passed.
\<close>

record text_decoder =
  utf8 :: utf8_decoder
  bom_seen :: bool

definition new_TextDecoder :: text_decoder where
  "new_TextDecoder = \<lparr>utf8 = utf8_initial, bom_seen = False\<rparr>"

text \<open>
  \<open>decoder.decode(value, { stream: true })\<close>: the bytes run through the decoder, whose
  state is kept for the next call, so an open sequence at the end of \<open>value\<close> gives no
  output yet.
\<close>

definition decode_stream :: "text_decoder \<Rightarrow> 8 word list \<Rightarrow> jstring \<times> text_decoder" where
  "decode_stream d bytes =
     (let (u, cps) = utf8_bytes (utf8 d) bytes;
          cps' = (if bom_seen d then cps
                  else (case cps of [] \<Rightarrow> [] | c # cs \<Rightarrow> if c = 0xFEFF then cs else c # cs))
      in (concat (map utf16_of cps'), \<lparr>utf8 = u, bom_seen = (bom_seen d \<or> cps \<noteq> [])\<rparr>))"

section \<open>The stream decoder (page.tsx, readStream)\<close>

text \<open>\<open>text.split('\n')\<close>: the pieces between the newlines, at least one.\<close>

fun split_newline :: "jstring \<Rightarrow> jstring list" where
  "split_newline [] = [[]]"
| "split_newline (c # cs) =
     (if c = newline then [] # split_newline cs
      else (case split_newline cs of
              [] \<Rightarrow> [[c]]
            | l # ls \<Rightarrow> (c # l) # ls))"

text \<open>
  What the generator does with one line: it yields the parsed value, or logs the
  \<open>SyntaxError\<close> that \<open>JSON.parse\<close> threw and goes on. \<open>JSON.parse\<close> is the
  argument \<open>parse\<close>, with \<open>None\<close> for the exception; \<open>Logged l\<close> is the call of
  \<open>console.error\<close> made for the line \<open>l\<close>.
\<close>

datatype 'a emitted = Yielded 'a | Logged jstring

definition process_line :: "(jstring \<Rightarrow> 'a option) \<Rightarrow> jstring \<Rightarrow> 'a emitted list" where
  "process_line parse line =
     (if trim line \<noteq> []
      then (case parse line of Some v \<Rightarrow> [Yielded v] | None \<Rightarrow> [Logged line])
      else [])"

definition process_text :: "(jstring \<Rightarrow> 'a option) \<Rightarrow> jstring \<Rightarrow> 'a emitted list" where
  "process_text parse text = concat (map (process_line parse) (split_newline text))"

text \<open>The \<open>while (true)\<close> loop over the chunks that \<open>reader.read()\<close> returns.\<close>

fun read_loop ::
  "(jstring \<Rightarrow> 'a option) \<Rightarrow> text_decoder \<Rightarrow> 8 word list list \<Rightarrow> 'a emitted list" where
  "read_loop parse d [] = []"
| "read_loop parse d (chunk # rest) =
     (let (text, d') = decode_stream d chunk
      in process_text parse text @ read_loop parse d' rest)"

text \<open>\<open>readStream\<close>; the body is \<open>None\<close> when the response has none.\<close>

definition readStream ::
  "(jstring \<Rightarrow> 'a option) \<Rightarrow> 8 word list list option \<Rightarrow> 'a emitted list" where
  "readStream parse body =
     (case body of None \<Rightarrow> [] | Some chunks \<Rightarrow> read_loop parse new_TextDecoder chunks)"

fun yielded :: "'a emitted list \<Rightarrow> 'a list" where
  "yielded [] = []"
| "yielded (Yielded v # es) = v # yielded es"
| "yielded (Logged l # es) = yielded es"

text \<open>The texts that the loop decodes, chunk by chunk.\<close>

fun chunk_texts :: "text_decoder \<Rightarrow> 8 word list list \<Rightarrow> jstring list" where
  "chunk_texts d [] = []"
| "chunk_texts d (chunk # rest) =
     (let (text, d') = decode_stream d chunk in text # chunk_texts d' rest)"

section \<open>\<open>JSON.parse\<close>\<close>

text \<open>
  The JSON grammar of ECMA-404, which \<open>JSON.parse\<close> accepts and nothing else. A
  number is kept as its text; its value is not read by the page. An object keeps its members in
  order, duplicates included.
\<close>

datatype json =
  JNull | JBool bool | JNumber jstring | JString jstring
  | JArray "json list" | JObject "(jstring \<times> json) list"

definition isJsonSpace :: "cu \<Rightarrow> bool" where
  "isJsonSpace c = (c = 0x09 \<or> c = 0x0A \<or> c = 0x0D \<or> c = 0x20)"

definition skip_ws :: "jstring \<Rightarrow> jstring" where
  "skip_ws s = dropWhile isJsonSpace s"

definition isDigit :: "cu \<Rightarrow> bool" where
  "isDigit c = (0x30 \<le> c \<and> c \<le> 0x39)"

definition hex_value :: "cu \<Rightarrow> cu option" where
  "hex_value c =
     (if 0x30 \<le> c \<and> c \<le> 0x39 then Some (c - 0x30)
      else if 0x41 \<le> c \<and> c \<le> 0x46 then Some (c - 0x37)
      else if 0x61 \<le> c \<and> c \<le> 0x66 then Some (c - 0x57)
      else None)"

text \<open>The character after a backslash, other than \<open>u\<close>.\<close>

definition simple_escape :: "cu \<Rightarrow> cu option" where
  "simple_escape e =
     (if e = 0x22 then Some 0x22
      else if e = 0x5C then Some 0x5C
      else if e = 0x2F then Some 0x2F
      else if e = 0x62 then Some 0x08
      else if e = 0x66 then Some 0x0C
      else if e = 0x6E then Some 0x0A
      else if e = 0x72 then Some 0x0D
      else if e = 0x74 then Some 0x09
      else None)"

text \<open>
  A string after its opening quote: the characters up to the closing quote, with the
  escapes replaced, and the input after the closing quote.
\<close>

fun string_body :: "jstring \<Rightarrow> (jstring \<times> jstring) option" where
  "string_body [] = None"
| "string_body (c # cs) =
     (if c = 0x22 then Some ([], cs)
      else if c = 0x5C then
        (case cs of
           [] \<Rightarrow> None
         | e # cs1 \<Rightarrow>
             if e = 0x75 then
               (case cs1 of
                  h1 # h2 # h3 # h4 # cs2 \<Rightarrow>
                    (case (hex_value h1, hex_value h2, hex_value h3, hex_value h4) of
                       (Some a, Some b, Some c', Some d) \<Rightarrow>
                         (case string_body cs2 of
                            None \<Rightarrow> None
                          | Some (s, rest) \<Rightarrow>
                              Some ((a * 0x1000 + b * 0x100 + c' * 0x10 + d) # s, rest))
                     | _ \<Rightarrow> None)
                | _ \<Rightarrow> None)
             else
               (case simple_escape e of
                  None \<Rightarrow> None
                | Some x \<Rightarrow>
                    (case string_body cs1 of
                       None \<Rightarrow> None
                     | Some (s, rest) \<Rightarrow> Some (x # s, rest))))
      else if c < 0x20 then None
      else (case string_body cs of
              None \<Rightarrow> None
            | Some (s, rest) \<Rightarrow> Some (c # s, rest)))"

text \<open>
  A number: an optional minus, \<open>0\<close> or a digit from 1 to 9 followed by digits, an
  optional fraction and an optional exponent. The result is its text and the rest.
\<close>

definition digits1 :: "jstring \<Rightarrow> (jstring \<times> jstring) option" where
  "digits1 s =
     (let ds = takeWhile isDigit s
      in if ds = [] then None else Some (ds, dropWhile isDigit s))"

definition number_int :: "jstring \<Rightarrow> (jstring \<times> jstring) option" where
  "number_int s =
     (case s of
        [] \<Rightarrow> None
      | c # cs \<Rightarrow> if c = 0x30 then Some ([c], cs) else digits1 s)"

definition number_frac :: "jstring \<Rightarrow> (jstring \<times> jstring) option" where
  "number_frac s =
     (case s of
        [] \<Rightarrow> Some ([], s)
      | c # cs \<Rightarrow>
          if c = 0x2E
          then (case digits1 cs of None \<Rightarrow> None | Some (ds, rest) \<Rightarrow> Some (c # ds, rest))
          else Some ([], s))"

definition number_exp :: "jstring \<Rightarrow> (jstring \<times> jstring) option" where
  "number_exp s =
     (case s of
        [] \<Rightarrow> Some ([], s)
      | c # cs \<Rightarrow>
          if c = 0x65 \<or> c = 0x45
          then (case cs of
                  [] \<Rightarrow> None
                | g # cs1 \<Rightarrow>
                    if g = 0x2B \<or> g = 0x2D
                    then (case digits1 cs1 of
                            None \<Rightarrow> None
                          | Some (ds, rest) \<Rightarrow> Some (c # g # ds, rest))
                    else (case digits1 cs of
                            None \<Rightarrow> None
                          | Some (ds, rest) \<Rightarrow> Some (c # ds, rest)))
          else Some ([], s))"

definition number_lexeme :: "jstring \<Rightarrow> (jstring \<times> jstring) option" where
  "number_lexeme s =
     (let (sign, s1) = (case s of
                          [] \<Rightarrow> ([], s)
                        | c # cs \<Rightarrow> if c = 0x2D then ([c], cs) else ([], s))
      in case number_int s1 of
           None \<Rightarrow> None
         | Some (i, s2) \<Rightarrow>
             (case number_frac s2 of
                None \<Rightarrow> None
              | Some (f, s3) \<Rightarrow>
                  (case number_exp s3 of
                     None \<Rightarrow> None
                   | Some (e, s4) \<Rightarrow> Some (sign @ i @ f @ e, s4))))"

text \<open>
  A value, the elements of an array after its first bracket and the members of an
  object after its first brace. The first argument bounds the number of nested calls;
  each call but the first follows a character of the input, so twice the length of
  the input is enough.
\<close>

fun json_value :: "nat \<Rightarrow> jstring \<Rightarrow> (json \<times> jstring) option"
  and json_elements :: "nat \<Rightarrow> jstring \<Rightarrow> (json list \<times> jstring) option"
  and json_members :: "nat \<Rightarrow> jstring \<Rightarrow> ((jstring \<times> json) list \<times> jstring) option" where
  "json_value 0 s = None"
| "json_value (Suc n) s =
     (case skip_ws s of
        [] \<Rightarrow> None
      | c # cs \<Rightarrow>
          if c = 0x7B then
            (case skip_ws cs of
               [] \<Rightarrow> None
             | c1 # cs1 \<Rightarrow>
                 if c1 = 0x7D then Some (JObject [], cs1)
                 else (case json_members n cs of
                         None \<Rightarrow> None
                       | Some (ms, rest) \<Rightarrow> Some (JObject ms, rest)))
          else if c = 0x5B then
            (case skip_ws cs of
               [] \<Rightarrow> None
             | c1 # cs1 \<Rightarrow>
                 if c1 = 0x5D then Some (JArray [], cs1)
                 else (case json_elements n cs of
                         None \<Rightarrow> None
                       | Some (vs, rest) \<Rightarrow> Some (JArray vs, rest)))
          else if c = 0x22 then
            (case string_body cs of
               None \<Rightarrow> None
             | Some (str, rest) \<Rightarrow> Some (JString str, rest))
          else if prefix (js ''true'') (c # cs) then Some (JBool True, drop 3 cs)
          else if prefix (js ''false'') (c # cs) then Some (JBool False, drop 4 cs)
          else if prefix (js ''null'') (c # cs) then Some (JNull, drop 3 cs)
          else (case number_lexeme (c # cs) of
                  None \<Rightarrow> None
                | Some (num, rest) \<Rightarrow> Some (JNumber num, rest)))"
| "json_elements 0 s = None"
| "json_elements (Suc n) s =
     (case json_value n s of
        None \<Rightarrow> None
      | Some (v, rest) \<Rightarrow>
          (case skip_ws rest of
             [] \<Rightarrow> None
           | c # cs \<Rightarrow>
               if c = 0x2C then
                 (case json_elements n cs of
                    None \<Rightarrow> None
                  | Some (vs, rest') \<Rightarrow> Some (v # vs, rest'))
               else if c = 0x5D then Some ([v], cs)
               else None))"
| "json_members 0 s = None"
| "json_members (Suc n) s =
     (case skip_ws s of
        [] \<Rightarrow> None
      | q # cs \<Rightarrow>
          if q = 0x22 then
            (case string_body cs of
               None \<Rightarrow> None
             | Some (key, rest) \<Rightarrow>
                 (case skip_ws rest of
                    [] \<Rightarrow> None
                  | c # cs1 \<Rightarrow>
                      if c = 0x3A then
                        (case json_value n cs1 of
                           None \<Rightarrow> None
                         | Some (v, rest1) \<Rightarrow>
                             (case skip_ws rest1 of
                                [] \<Rightarrow> None
                              | c2 # cs2 \<Rightarrow>
                                  if c2 = 0x2C then
                                    (case json_members n cs2 of
                                       None \<Rightarrow> None
                                     | Some (ms, rest2) \<Rightarrow> Some ((key, v) # ms, rest2))
                                  else if c2 = 0x7D then Some ([(key, v)], cs2)
                                  else None))
                      else None))
          else None)"

text \<open>\<open>JSON.parse(line)\<close>: one value, with nothing but white space around it.\<close>

definition JSON_parse :: "jstring \<Rightarrow> json option" where
  "JSON_parse s =
     (case json_value (2 * length s + 2) s of
        None \<Rightarrow> None
      | Some (v, rest) \<Rightarrow> if skip_ws rest = [] then Some v else None)"

section \<open>Sessions used as examples\<close>

text \<open>
  A session from its start: the user types a prompt and submits it, and the generation
  succeeds. From then on the preview shows an undefined reference whenever it is
  looked at, and every fix request succeeds as well. One round is the pending timeout
  firing, then the response to the request it sent, if it sent one.
\<close>

definition generated :: response where
  "generated = Body [record_of (Fragment (js ''code''))] True"

definition error_shown :: preview where
  "error_shown = Document (Some (js ''ReferenceError: foo is not defined'')) []"

definition after_generation :: world where
  "after_generation =
     deliver 0 generated (submit_prompt (type_prompt (js ''build a counter'') initial_world))"

definition auto_fix_round :: "world \<Rightarrow> world" where
  "auto_fix_round w = deliver 0 generated (fire_timeout error_shown w)"

text \<open>The render in which the prompt of that session is submitted.\<close>

definition submit_render :: state where
  "submit_render = initial_state\<lparr>prompt := js ''build a counter''\<rparr>"

section \<open>Inputs of the stream decoder\<close>

text \<open>The bytes of a chunk, written as a byte string.\<close>

definition bytes_of :: "string \<Rightarrow> 8 word list" where
  "bytes_of s = map of_char s"

text \<open>Lines joined by newlines, as \<open>Array.prototype.join('\n')\<close> does.\<close>

fun join_newline :: "jstring list \<Rightarrow> jstring" where
  "join_newline [] = []"
| "join_newline [l] = l"
| "join_newline (l # l' # ls) = l @ newline # join_newline (l' # ls)"

text \<open>
  The text of a whole body handed to \<open>decode(value, { stream: true })\<close> of a new decoder
  as one chunk.
\<close>

definition decode_whole :: "8 word list \<Rightarrow> jstring" where
  "decode_whole bytes = fst (decode_stream new_TextDecoder bytes)"

section \<open>The code accumulator\<close>

lemma accumulate_append:
  "accumulate acc (rs @ rs') = accumulate (accumulate acc rs) rs'"
  by (induction rs arbitrary: acc) (auto split: option.splits)

lemma accumulate_fragments:
  "accumulate acc (map (record_of \<circ> Fragment) ts) = acc @ concat ts"
  by (induction ts arbitrary: acc) (simp_all add: accumulate_step_def choice_text_def)

text \<open>
  For the records of the protocol the loop publishes, with its last record, the buffer
  it ends with.
\<close>

lemma consume_events:
  "consume (map record_of evs) (fc, s) =
     (accumulate fc (map record_of evs),
      if evs = [] then s else s\<lparr>generatedCode := accumulate fc (map record_of evs)\<rparr>)"
proof (induction evs arbitrary: fc s)
  case Nil
  then show ?case by simp
next
  case (Cons e evs)
  obtain cs where cs: "choices (record_of e) = Some cs"
    by (cases e) simp_all
  show ?case
    by (cases "evs = []") (simp_all add: cs Cons.IH Let_def)
qed

text \<open>
  C1. A stream of fragments with no final record leaves the concatenation of the
  fragment texts, in order; a stream of fragments closed by one final record
  \<open>FinalCleaned text\<close> leaves exactly \<open>text\<close>, whatever was accumulated before.
  What is left is what \<open>createApp\<close> shows as the artifact once it has read the stream.
\<close>

theorem code_accumulator_fold:
  "final_artifact (map Fragment ts) = concat ts \<and>
   final_artifact (map Fragment ts @ [FinalCleaned t]) = t \<and>
   generatedCode (st (createApp_resume r (Body (map record_of evs) ended) (createApp r w))) =
     final_artifact evs"
proof (intro conjI)
  show "final_artifact (map Fragment ts) = concat ts"
    by (simp add: final_artifact_def accumulate_fragments)
next
  have "final_artifact (map Fragment ts @ [FinalCleaned t]) =
      accumulate (accumulate [] (map (record_of \<circ> Fragment) ts)) [record_of (FinalCleaned t)]"
    by (simp add: final_artifact_def accumulate_append)
  also have "\<dots> = accumulate_step (concat ts)
      [\<lparr>text_of = Some [], cleanedCode = Some t\<rparr>]"
    by (simp add: accumulate_fragments)
  also have "\<dots> = t"
    by (simp add: accumulate_step_def)
  finally show "final_artifact (map Fragment ts @ [FinalCleaned t]) = t" .
next
  show "generatedCode (st (createApp_resume r (Body (map record_of evs) ended) (createApp r w))) =
     final_artifact evs"
    by (cases ended; cases "evs = []")
       (simp_all add: createApp_resume_def createApp_def consume_events final_artifact_def)
qed

section \<open>White space\<close>

lemma trim_Nil_iff: "trim s = [] \<longleftrightarrow> (\<forall>c\<in>set s. isWhiteSpace c)"
proof
  assume "trim s = []"
  then have "dropWhile isWhiteSpace (rev (dropWhile isWhiteSpace s)) = []"
    by (simp add: trim_def)
  then have all: "\<forall>c\<in>set (dropWhile isWhiteSpace s). isWhiteSpace c"
    by (simp add: dropWhile_eq_Nil_conv)
  have "dropWhile isWhiteSpace s = []"
  proof (cases "dropWhile isWhiteSpace s")
    case Nil
    then show ?thesis .
  next
    case (Cons x xs)
    then have "\<not> isWhiteSpace x"
      using hd_dropWhile[of isWhiteSpace s] by simp
    with all Cons show ?thesis by simp
  qed
  then show "\<forall>c\<in>set s. isWhiteSpace c"
    by (simp add: dropWhile_eq_Nil_conv)
next
  assume "\<forall>c\<in>set s. isWhiteSpace c"
  then have e: "dropWhile isWhiteSpace s = []"
    by (simp add: dropWhile_eq_Nil_conv)
  show "trim s = []"
    unfolding trim_def e by simp
qed

section \<open>Completion cleanup\<close>

lemma includes_str_sublist: "includes_str s p \<longleftrightarrow> sublist p s"
  by (induction s) (simp_all add: sublist_Cons_right)

lemma sublist_trim: "sublist (trim s) s"
proof -
  have "sublist (dropWhile isWhiteSpace (rev (dropWhile isWhiteSpace s)))
          (rev (dropWhile isWhiteSpace s))"
    by simp
  then have "sublist (trim s) (dropWhile isWhiteSpace s)"
    by (simp add: trim_def sublist_rev_left)
  moreover have "sublist (dropWhile isWhiteSpace s) s"
    by simp
  ultimately show ?thesis
    by (rule sublist_order.order_trans)
qed

lemma trim_idem: "trim (trim s) = trim s"
proof -
  define t where "t = dropWhile isWhiteSpace s"
  define v where "v = dropWhile isWhiteSpace (rev t)"
  have u: "trim s = rev v"
    by (simp add: trim_def t_def v_def)
  have vv: "dropWhile isWhiteSpace v = v"
    by (simp add: v_def)
  define w where "w = rev (takeWhile isWhiteSpace (rev t))"
  have t_split: "t = rev v @ w"
  proof -
    have "rev t = takeWhile isWhiteSpace (rev t) @ v"
      by (simp add: v_def)
    then have "rev (rev t) = rev (takeWhile isWhiteSpace (rev t) @ v)"
      by simp
    then show ?thesis by (simp add: w_def)
  qed
  have "dropWhile isWhiteSpace (rev v) = rev v"
  proof (cases "rev v")
    case Nil
    then show ?thesis by simp
  next
    case (Cons x xs)
    with t_split have "t = x # xs @ w"
      by simp
    then have "hd t = x" and "t \<noteq> []" by simp_all
    then have "\<not> isWhiteSpace x"
      using hd_dropWhile[of isWhiteSpace s] by (simp add: t_def)
    with Cons show ?thesis by simp
  qed
  then have "trim (rev v) = rev (dropWhile isWhiteSpace v)"
    by (simp add: trim_def)
  with vv u show ?thesis by simp
qed

lemma canonicalize_backtick: "canonicalize c = 0x60 \<longleftrightarrow> c = 0x60"
  unfolding canonicalize_def by (auto; unat_arith)

lemma literal_at_fence: "literal_at i (fence @ tag) s \<Longrightarrow> prefix fence s"
proof (cases i)
  case False
  assume "literal_at i (fence @ tag) s"
  with False show ?thesis
    by (auto simp: literal_at_def dest: append_prefixD)
next
  case True
  assume "literal_at i (fence @ tag) s"
  with True have "prefix (map canonicalize fence) (map canonicalize s)"
    by (auto simp: literal_at_def dest: append_prefixD)
  moreover have "map canonicalize fence = fence"
    by (simp add: fence_def js_def canonicalize_def)
  ultimately have "prefix fence (map canonicalize s)"
    by simp
  then show ?thesis
    by (cases s; cases "tl s"; cases "tl (tl s)")
       (auto simp: fence_def js_def canonicalize_backtick)
qed

lemma replace_fence_no_fence:
  "\<not> sublist fence s \<Longrightarrow> replace_fence i tag s = s"
proof (induction s)
  case Nil
  then show ?case by simp
next
  case (Cons c cs)
  from Cons.prems have "\<not> prefix fence (c # cs)" and "\<not> sublist fence cs"
    by (simp_all add: sublist_Cons_right)
  with Cons.IH literal_at_fence[of i tag "c # cs"] show ?case
    by auto
qed

lemma cleanup_no_fence: "\<not> sublist fence s \<Longrightarrow> cleanup s = trim s"
  by (simp add: cleanup_def replace_fence_no_fence)

lemma plain_pass_prefix:
  assumes "\<not> prefix fence xs"
  shows "\<not> prefix fence (replace_fence False [] xs)"
proof (cases xs)
  case Nil
  then show ?thesis by (simp add: fence_def js_def)
next
  case xs: (Cons a xs1)
  show ?thesis
  proof (cases xs1)
    case Nil
    with xs show ?thesis by (simp add: fence_def js_def literal_at_def)
  next
    case xs1: (Cons b xs2)
    show ?thesis
    proof (cases xs2)
      case Nil
      with xs xs1 show ?thesis by (simp add: fence_def js_def literal_at_def)
    next
      case xs2: (Cons c xs3)
      from assms xs xs1 xs2 have ne: "\<not> (a = 0x60 \<and> b = 0x60 \<and> c = 0x60)"
        by (auto simp: fence_def js_def)
      show ?thesis
      proof (cases "a = 0x60")
        case False
        with xs show ?thesis by (simp add: fence_def js_def literal_at_def)
      next
        case a: True
        show ?thesis
        proof (cases "b = 0x60")
          case False
          with xs xs1 a show ?thesis by (simp add: fence_def js_def literal_at_def)
        next
          case b: True
          with ne a have "c \<noteq> 0x60" by simp
          with xs xs1 xs2 a b show ?thesis by (simp add: fence_def js_def literal_at_def)
        qed
      qed
    qed
  qed
qed

lemma plain_pass_no_fence: "\<not> sublist fence (replace_fence False [] s)"
proof (induction "False" "[] :: jstring" s rule: replace_fence.induct)
  case 1
  then show ?case by (simp add: fence_def js_def)
next
  case (2 c cs)
  show ?case
  proof (cases "literal_at False (fence @ []) (c # cs)")
    case True
    with 2 show ?thesis by simp
  next
    case False
    then have np: "\<not> prefix fence (c # cs)"
      by (simp add: literal_at_def)
    from False have eq: "replace_fence False [] (c # cs) = c # replace_fence False [] cs"
      by simp
    from plain_pass_prefix[OF np] eq have "\<not> prefix fence (c # replace_fence False [] cs)"
      by simp
    moreover from 2 False have "\<not> sublist fence (replace_fence False [] cs)"
      by simp
    ultimately show ?thesis
      unfolding eq sublist_Cons_right by blast
  qed
qed

lemma cleanup_has_no_fence: "\<not> sublist fence (cleanup s)"
proof
  assume "sublist fence (cleanup s)"
  moreover have "sublist (cleanup s) (replace_fence False []
      (replace_fence True (js ''javascript'') (replace_fence True (js ''jsx'')
        (replace_fence True (js ''tsx'') (replace_fence True (js ''typescript'') s)))))"
    by (simp add: cleanup_def sublist_trim)
  ultimately have "sublist fence (replace_fence False []
      (replace_fence True (js ''javascript'') (replace_fence True (js ''jsx'')
        (replace_fence True (js ''tsx'') (replace_fence True (js ''typescript'') s)))))"
    by (rule sublist_order.order_trans)
  then show False
    by (simp add: plain_pass_no_fence)
qed

lemma cleanup_trimmed: "trim (cleanup s) = cleanup s"
  by (simp add: cleanup_def trim_idem)

text \<open>
  C7. Cleanup leaves a trimmed text without a fence as it is; its output never contains
  three backticks in a row; so cleaning twice is cleaning once.
\<close>

theorem cleanup_idempotent:
  "(\<not> includes_str s fence \<and> trim s = s \<longrightarrow> cleanup s = s) \<and>
   \<not> includes_str (cleanup s) fence \<and>
   cleanup (cleanup s) = cleanup s"
proof (intro conjI impI)
  assume "\<not> includes_str s fence \<and> trim s = s"
  then show "cleanup s = s"
    by (simp add: includes_str_sublist cleanup_no_fence)
next
  show "\<not> includes_str (cleanup s) fence"
    by (simp add: includes_str_sublist cleanup_has_no_fence)
next
  have "cleanup (cleanup s) = trim (cleanup s)"
    by (rule cleanup_no_fence) (rule cleanup_has_no_fence)
  then show "cleanup (cleanup s) = cleanup s"
    by (simp add: cleanup_trimmed)
qed

lemma no_fence_example: \<open>\<not> includes_str (js ''x = 1;'') fence\<close>
  by code_simp

lemma trimmed_example: \<open>trim (js ''x = 1;'') = js ''x = 1;''\<close>
  by code_simp

theorem cleanup_idempotent_witness:
  \<open>\<not> includes_str (js ''x = 1;'') fence \<and> trim (js ''x = 1;'') = js ''x = 1;'' \<and>
   cleanup (js ''x = 1;'') = js ''x = 1;''\<close>
  using cleanup_idempotent[of \<open>js ''x = 1;''\<close>] no_fence_example trimmed_example
  by simp

lemma forward_chunks_eq:
  "forward_chunks ds (enq, buf) =
     (enq @ map (record_of \<circ> Fragment) (filter (\<lambda>t. t \<noteq> []) (map delta_text ds)),
      buf @ concat (map delta_text ds))"
  by (induction ds arbitrary: enq buf) (simp_all add: Let_def)






























section \<open>From the model's output to the artifact\<close>

text \<open>
  The artifact that the page holds after it has read the whole stream of the route
  handler: the cleaned output when the model's output holds a fence, the output itself
  otherwise.
\<close>

lemma concat_filter_nonempty: "concat (filter (\<lambda>t. t \<noteq> []) ts) = concat ts"
  by (induction ts) simp_all

lemma artifact_of_stream:
  "accumulate [] (POST_stream deltas) =
     (if includes_str (concat (map delta_text deltas)) fence
      then cleanup (concat (map delta_text deltas))
      else concat (map delta_text deltas))"
  by (simp add: POST_stream_def forward_chunks_eq accumulate_append accumulate_fragments
      accumulate_step_def concat_filter_nonempty)

text \<open>The end-to-end scenarios A and B of the specification.\<close>

lemma scenario_A:
  \<open>POST_stream [Some (js ''import''), Some (js '' React...''), Some (js ''export default...'')] =
     map record_of
       [Fragment (js ''import''), Fragment (js '' React...''), Fragment (js ''export default...'')] \<and>
   final_artifact
     [Fragment (js ''import''), Fragment (js '' React...''), Fragment (js ''export default...'')] =
     js ''import React...export default...''\<close>
  by code_simp

lemma scenario_B:
  \<open>POST_stream [Some (js ''```tsx\<newline>import React...\<newline>```'')] =
     map record_of
       [Fragment (js ''```tsx\<newline>import React...\<newline>```''),
        FinalCleaned (js ''import React...'')]\<close>
  by code_simp

section \<open>The stream decoder\<close>

lemma split_newline_nonempty: "split_newline s \<noteq> []"
  by (induction s) (auto split: list.splits)

lemma split_newline_append:
  "split_newline (x @ newline # b) = split_newline x @ split_newline b"
proof (induction x)
  case Nil
  then show ?case by simp
next
  case (Cons c x)
  obtain l ls where s: "split_newline x = l # ls"
    using split_newline_nonempty[of x] by (cases "split_newline x") auto
  with Cons show ?case by simp
qed

lemma split_newline_line: "newline \<notin> set l \<Longrightarrow> split_newline l = [l]"
  by (induction l) auto

lemma split_join_newline:
  "ls \<noteq> [] \<Longrightarrow> \<forall>l\<in>set ls. newline \<notin> set l \<Longrightarrow> split_newline (join_newline ls) = ls"
proof (induction ls rule: join_newline.induct)
  case 1
  then show ?case by simp
next
  case (2 l)
  then show ?case by (simp add: split_newline_line)
next
  case (3 l l' ls)
  then show ?case
    by (simp add: split_newline_append split_newline_line)
qed

lemma read_loop_texts:
  "read_loop parse d chunks = concat (map (process_text parse) (chunk_texts d chunks))"
  by (induction chunks arbitrary: d) (simp_all add: split_beta)

lemma yielded_append: "yielded (xs @ ys) = yielded xs @ yielded ys"
  by (induction xs rule: yielded.induct) simp_all

lemma yielded_lines:
  "yielded (concat (map (process_line parse) ls)) =
     List.map_filter parse (filter (\<lambda>l. trim l \<noteq> []) ls)"
  by (induction ls)
     (auto simp: yielded_append process_line_def List.map_filter_simps split: option.splits)

text \<open>
  C8. A line that \<open>JSON.parse\<close> rejects is logged and dropped, and nothing else
  changes: the chunks before it, the lines before and after it in its chunk, and the
  chunks after it are decoded as they would be without it. The decoder is a total
  function to the list of what it yields and logs, so it does not raise.
\<close>

theorem malformed_line_recovery:
  assumes lines: "\<forall>l\<in>set (before @ bad # after). newline \<notin> set l"
    and texts: "chunk_texts new_TextDecoder chunks =
                  texts1 @ join_newline (before @ bad # after) # texts2"
    and bad: "trim bad \<noteq> []" "parse bad = None"
  shows "readStream parse (Some chunks) =
           concat (map (process_text parse) texts1)
           @ concat (map (process_line parse) before)
           @ Logged bad # concat (map (process_line parse) after)
           @ concat (map (process_text parse) texts2) \<and>
         yielded (readStream parse (Some chunks)) =
           yielded (concat (map (process_text parse) texts1))
           @ List.map_filter parse (filter (\<lambda>l. trim l \<noteq> []) (before @ after))
           @ yielded (concat (map (process_text parse) texts2))"
proof -
  have "split_newline (join_newline (before @ bad # after)) = before @ bad # after"
    using lines by (intro split_join_newline) simp_all
  then have one: "process_text parse (join_newline (before @ bad # after)) =
      concat (map (process_line parse) before)
      @ Logged bad # concat (map (process_line parse) after)"
    using bad by (simp add: process_text_def process_line_def)
  have all: "readStream parse (Some chunks) =
      concat (map (process_text parse) texts1)
      @ concat (map (process_line parse) before)
      @ Logged bad # concat (map (process_line parse) after)
      @ concat (map (process_text parse) texts2)"
    by (simp add: readStream_def read_loop_texts texts one)
  have "yielded (concat (map (process_line parse) before)
          @ Logged bad # concat (map (process_line parse) after)) =
        List.map_filter parse (filter (\<lambda>l. trim l \<noteq> []) (before @ after))"
    by (simp add: yielded_append yielded_lines List.map_filter_def)
  then have "yielded (readStream parse (Some chunks)) =
      yielded (concat (map (process_text parse) texts1))
      @ List.map_filter parse (filter (\<lambda>l. trim l \<noteq> []) (before @ after))
      @ yielded (concat (map (process_text parse) texts2))"
    unfolding all by (simp add: yielded_append)
  with all show ?thesis by simp
qed

lemma recovery_example_texts:
  \<open>chunk_texts new_TextDecoder
     [bytes_of ''{"choices":[{"text":"a"}]}\<newline>not json\<newline>{"choices":[{"text":"b"}]}\<newline>''] =
   [] @ join_newline ([js ''{"choices":[{"text":"a"}]}''] @ js ''not json''
          # [js ''{"choices":[{"text":"b"}]}'', []]) # []\<close>
  by code_simp

lemma recovery_example_lines:
  \<open>\<forall>l\<in>set ([js ''{"choices":[{"text":"a"}]}''] @ js ''not json''
          # [js ''{"choices":[{"text":"b"}]}'', []]). newline \<notin> set l\<close>
  by code_simp

lemma recovery_example_bad:
  \<open>trim (js ''not json'') \<noteq> []\<close> \<open>JSON_parse (js ''not json'') = None\<close>
  by code_simp+

lemma recovery_example_good:
  \<open>List.map_filter JSON_parse (filter (\<lambda>l. trim l \<noteq> [])
      ([js ''{"choices":[{"text":"a"}]}''] @ [js ''{"choices":[{"text":"b"}]}'', []])) =
   [JObject [(js ''choices'', JArray [JObject [(js ''text'', JString (js ''a''))]])],
    JObject [(js ''choices'', JArray [JObject [(js ''text'', JString (js ''b''))]])]]\<close>
  by code_simp

theorem malformed_line_recovery_witness:
  \<open>yielded (readStream JSON_parse (Some
     [bytes_of ''{"choices":[{"text":"a"}]}\<newline>not json\<newline>{"choices":[{"text":"b"}]}\<newline>''])) =
   [JObject [(js ''choices'', JArray [JObject [(js ''text'', JString (js ''a''))]])],
    JObject [(js ''choices'', JArray [JObject [(js ''text'', JString (js ''b''))]])]]\<close>
proof -
  note malformed_line_recovery[where parse = JSON_parse, OF recovery_example_lines
      recovery_example_texts recovery_example_bad, THEN conjunct2]
  also have \<open>yielded (concat (map (process_text JSON_parse) [])) @
      List.map_filter JSON_parse (filter (\<lambda>l. trim l \<noteq> [])
        ([js ''{"choices":[{"text":"a"}]}''] @ [js ''{"choices":[{"text":"b"}]}'', []])) @
      yielded (concat (map (process_text JSON_parse) [])) =
      List.map_filter JSON_parse (filter (\<lambda>l. trim l \<noteq> [])
        ([js ''{"choices":[{"text":"a"}]}''] @ [js ''{"choices":[{"text":"b"}]}'', []]))\<close>
    by simp
  also note recovery_example_good
  finally show ?thesis .
qed

lemma utf8_bytes_append:
  "utf8_bytes d (a @ b) =
     (let (d1, o1) = utf8_bytes d a; (d2, o2) = utf8_bytes d1 b in (d2, o1 @ o2))"
  by (induction a arbitrary: d) (simp_all add: split_beta)

lemma decode_stream_append:
  "decode_stream d (a @ b) =
     (let (t1, d1) = decode_stream d a; (t2, d2) = decode_stream d1 b in (t1 @ t2, d2))"
proof -
  obtain d1 o1 where a: "utf8_bytes (utf8 d) a = (d1, o1)"
    by (cases "utf8_bytes (utf8 d) a")
  obtain d2 o2 where b: "utf8_bytes d1 b = (d2, o2)"
    by (cases "utf8_bytes d1 b")
  show ?thesis
    by (cases o1) (simp_all add: decode_stream_def utf8_bytes_append a b)
qed

lemma chunk_texts_concat:
  "concat (chunk_texts d chunks) = fst (decode_stream d (concat chunks))"
proof (induction chunks arbitrary: d)
  case Nil
  then show ?case by (simp add: decode_stream_def)
next
  case (Cons c cs)
  then show ?case
    by (simp add: decode_stream_append split_beta)
qed

lemma process_text_append:
  assumes "a = [] \<or> last a = newline"
  shows "process_text parse (a @ b) = process_text parse a @ process_text parse b"
proof (cases "a = []")
  case True
  then show ?thesis by (simp add: process_text_def process_line_def trim_def)
next
  case False
  with assms obtain x where a: "a = x @ [newline]"
    by (metis append_butlast_last_id)
  have "process_line parse [] = []"
    by (simp add: process_line_def trim_def)
  then show ?thesis
    using split_newline_append[of x b] split_newline_append[of x "[]"]
    by (simp add: a process_text_def)
qed

lemma process_text_concat:
  "\<forall>t\<in>set (butlast ts). t = [] \<or> last t = newline \<Longrightarrow>
     concat (map (process_text parse) ts) = process_text parse (concat ts)"
proof (induction ts)
  case Nil
  then show ?case by (simp add: process_text_def process_line_def trim_def)
next
  case (Cons t ts)
  show ?case
  proof (cases "ts = []")
    case True
    then show ?thesis by simp
  next
    case False
    with Cons.prems have t: "t = [] \<or> last t = newline"
      and rest: "\<forall>t\<in>set (butlast ts). t = [] \<or> last t = newline"
      by simp_all
    from Cons.IH[OF rest]
    have "concat (map (process_text parse) ts) = process_text parse (concat ts)" .
    with process_text_append[OF t, of parse "concat ts"] show ?thesis
      by simp
  qed
qed

lemma utf8_bytes_ascii:
  "\<forall>b\<in>set bytes. b \<le> 0x7F \<Longrightarrow> utf8_bytes utf8_initial bytes = (utf8_initial, map ucast bytes)"
  by (induction bytes) (simp_all add: utf8_byte_def utf8_lead_def utf8_initial_def)

lemma utf16_of_byte: "utf16_of (ucast (b :: 8 word)) = [ucast b]"
proof -
  have "(ucast b :: 32 word) < 0x10000"
    by transfer (simp add: take_bit_eq_mod)
  moreover have "(ucast (ucast b :: 32 word) :: 16 word) = ucast b"
    by transfer (simp add: take_bit_eq_mod)
  ultimately show ?thesis by (simp add: utf16_of_def)
qed

lemma byte_not_bom: "(ucast (b :: 8 word) :: 32 word) \<noteq> 0xFEFF"
  by transfer (simp add: take_bit_eq_mod)

lemma utf16_of_bytes: "concat (map utf16_of (map ucast bytes)) = map ucast (bytes :: 8 word list)"
  by (induction bytes) (simp_all add: utf16_of_byte)

lemma decode_whole_ascii:
  assumes "\<forall>b\<in>set bytes. b \<le> 0x7F"
  shows "decode_whole bytes = map ucast bytes"
proof (cases bytes)
  case Nil
  then show ?thesis
    by (simp add: decode_whole_def decode_stream_def new_TextDecoder_def)
next
  case (Cons b bs)
  have "concat (map utf16_of (ucast b # map ucast bs)) = ucast b # map ucast bs"
    using utf16_of_bytes[of "b # bs"] by simp
  then show ?thesis
    using utf8_bytes_ascii[OF assms] Cons
    by (simp add: decode_whole_def decode_stream_def new_TextDecoder_def byte_not_bom
        del: utf8_bytes.simps)
qed

lemma nonblank_split_join:
  "\<forall>l\<in>set ls. newline \<notin> set l \<Longrightarrow>
     filter (\<lambda>l. trim l \<noteq> []) (split_newline (join_newline ls)) = filter (\<lambda>l. trim l \<noteq> []) ls"
proof (cases "ls = []")
  case True
  then show ?thesis by (simp add: trim_def)
next
  case False
  assume "\<forall>l\<in>set ls. newline \<notin> set l"
  with False show ?thesis by (simp add: split_join_newline)
qed

lemma process_lines:
  "concat (map (process_line parse) ls) =
     concat (map (\<lambda>l. case parse l of Some v \<Rightarrow> [Yielded v] | None \<Rightarrow> [Logged l])
       (filter (\<lambda>l. trim l \<noteq> []) ls))"
  by (induction ls) (simp_all add: process_line_def)

lemma process_lines_filter:
  "concat (map (process_line parse) (filter (\<lambda>l. trim l \<noteq> []) ls)) =
     concat (map (process_line parse) ls)"
  by (induction ls) (simp_all add: process_line_def)

text \<open>
  C4, as the code has it. The text does not depend on the chunking: the texts decoded
  chunk by chunk, put together, are the text of the whole body, so a character whose
  bytes are split over two chunks is not corrupted; a body of ASCII bytes decodes to
  the same code units. The lines are split chunk by chunk and nothing is carried over.
  Let the text of the whole body be the lines \<open>ls\<close> joined by newlines. When every
  chunk but the last decodes to a text that is empty or ends with a newline, the
  decoder goes through the lines of \<open>ls\<close> that are not blank, in order, each once: it
  yields the value of a line that \<open>parse\<close> accepts and logs a line that it rejects.
\<close>

theorem chunk_boundaries:
  "concat (chunk_texts new_TextDecoder chunks) = decode_whole (concat chunks) \<and>
   ((\<forall>b\<in>set (concat chunks). b \<le> 0x7F) \<longrightarrow>
      decode_whole (concat chunks) = map ucast (concat chunks)) \<and>
   ((\<forall>t\<in>set (butlast (chunk_texts new_TextDecoder chunks)). t = [] \<or> last t = newline) \<and>
    (\<forall>l\<in>set ls. newline \<notin> set l) \<and> decode_whole (concat chunks) = join_newline ls \<longrightarrow>
      readStream parse (Some chunks) =
        concat (map (\<lambda>l. case parse l of Some v \<Rightarrow> [Yielded v] | None \<Rightarrow> [Logged l])
          (filter (\<lambda>l. trim l \<noteq> []) ls)) \<and>
      yielded (readStream parse (Some chunks)) =
        List.map_filter parse (filter (\<lambda>l. trim l \<noteq> []) ls))"
proof (intro conjI impI)
  show whole: "concat (chunk_texts new_TextDecoder chunks) = decode_whole (concat chunks)"
    by (simp add: decode_whole_def chunk_texts_concat)
  show "decode_whole (concat chunks) = map ucast (concat chunks)"
    if "\<forall>b\<in>set (concat chunks). b \<le> 0x7F"
    using that by (rule decode_whole_ascii)
  assume a: "(\<forall>t\<in>set (butlast (chunk_texts new_TextDecoder chunks)). t = [] \<or> last t = newline) \<and>
    (\<forall>l\<in>set ls. newline \<notin> set l) \<and> decode_whole (concat chunks) = join_newline ls"
  then have "concat (map (process_text parse) (chunk_texts new_TextDecoder chunks)) =
      process_text parse (concat (chunk_texts new_TextDecoder chunks))"
    by (intro process_text_concat) simp
  with a have "readStream parse (Some chunks) = process_text parse (join_newline ls)"
    by (simp add: readStream_def read_loop_texts whole)
  also have "\<dots> = concat (map (process_line parse)
      (filter (\<lambda>l. trim l \<noteq> []) (split_newline (join_newline ls))))"
    by (simp add: process_text_def process_lines_filter)
  also from a have "\<dots> = concat (map (process_line parse) (filter (\<lambda>l. trim l \<noteq> []) ls))"
    by (simp add: nonblank_split_join)
  also have "\<dots> = concat (map (process_line parse) ls)"
    by (rule process_lines_filter)
  finally have r: "readStream parse (Some chunks) = concat (map (process_line parse) ls)" .
  then show "readStream parse (Some chunks) =
        concat (map (\<lambda>l. case parse l of Some v \<Rightarrow> [Yielded v] | None \<Rightarrow> [Logged l])
          (filter (\<lambda>l. trim l \<noteq> []) ls))"
    by (simp add: process_lines)
  from r show "yielded (readStream parse (Some chunks)) =
        List.map_filter parse (filter (\<lambda>l. trim l \<noteq> []) ls)"
    by (simp add: yielded_lines)
qed

text \<open>
  A body in three chunks. The byte order mark at its start is split over the first two
  chunks and the two bytes of \<open>U+00E9\<close> over the last two; every chunk's text is
  empty or ends with a newline. The lines are a record, a blank line, a line that is
  not JSON, a record, and the empty line after the last newline.
\<close>

lemma boundary_example_texts:
  \<open>\<forall>t\<in>set (butlast (chunk_texts new_TextDecoder
      [[0xEF, 0xBB],
       [0xBF] @ bytes_of ''{"choices":[{"text":"a"}]}\<newline>  \<newline>'' @ [0xC3],
       [0xA9] @ bytes_of ''\<newline>{"choices":[{"text":"b"}]}\<newline>''])).
     t = [] \<or> last t = newline\<close>
  by code_simp

lemma boundary_example_lines:
  \<open>\<forall>l\<in>set [js ''{"choices":[{"text":"a"}]}'', js ''  '', [0xE9],
       js ''{"choices":[{"text":"b"}]}'', []]. newline \<notin> set l\<close>
  by code_simp

lemma boundary_example_whole:
  \<open>decode_whole (concat
      [[0xEF, 0xBB],
       [0xBF] @ bytes_of ''{"choices":[{"text":"a"}]}\<newline>  \<newline>'' @ [0xC3],
       [0xA9] @ bytes_of ''\<newline>{"choices":[{"text":"b"}]}\<newline>'']) =
   join_newline [js ''{"choices":[{"text":"a"}]}'', js ''  '', [0xE9],
       js ''{"choices":[{"text":"b"}]}'', []]\<close>
  by code_simp

lemma boundary_example_events:
  \<open>concat (map (\<lambda>l. case JSON_parse l of Some v \<Rightarrow> [Yielded v] | None \<Rightarrow> [Logged l])
     (filter (\<lambda>l. trim l \<noteq> [])
        [js ''{"choices":[{"text":"a"}]}'', js ''  '', [0xE9],
         js ''{"choices":[{"text":"b"}]}'', []])) =
   [Yielded (JObject [(js ''choices'', JArray [JObject [(js ''text'', JString (js ''a''))]])]),
    Logged [0xE9],
    Yielded (JObject [(js ''choices'', JArray [JObject [(js ''text'', JString (js ''b''))]])])]\<close>
  by code_simp

lemma boundary_example_yielded:
  \<open>List.map_filter JSON_parse (filter (\<lambda>l. trim l \<noteq> [])
        [js ''{"choices":[{"text":"a"}]}'', js ''  '', [0xE9],
         js ''{"choices":[{"text":"b"}]}'', []]) =
   [JObject [(js ''choices'', JArray [JObject [(js ''text'', JString (js ''a''))]])],
    JObject [(js ''choices'', JArray [JObject [(js ''text'', JString (js ''b''))]])]]\<close>
  by code_simp

lemma ascii_example_bytes:
  \<open>\<forall>b\<in>set (concat [bytes_of ''{"choices":'', bytes_of ''[]}\<newline>'']). b \<le> 0x7F\<close>
  by code_simp

lemma ascii_example_text:
  \<open>map ucast (concat [bytes_of ''{"choices":'', bytes_of ''[]}\<newline>'']) = js ''{"choices":[]}\<newline>''\<close>
  by code_simp

theorem chunk_boundaries_witness:
  \<open>readStream JSON_parse (Some
      [[0xEF, 0xBB],
       [0xBF] @ bytes_of ''{"choices":[{"text":"a"}]}\<newline>  \<newline>'' @ [0xC3],
       [0xA9] @ bytes_of ''\<newline>{"choices":[{"text":"b"}]}\<newline>'']) =
     [Yielded (JObject [(js ''choices'', JArray [JObject [(js ''text'', JString (js ''a''))]])]),
      Logged [0xE9],
      Yielded (JObject [(js ''choices'', JArray [JObject [(js ''text'', JString (js ''b''))]])])] \<and>
   yielded (readStream JSON_parse (Some
      [[0xEF, 0xBB],
       [0xBF] @ bytes_of ''{"choices":[{"text":"a"}]}\<newline>  \<newline>'' @ [0xC3],
       [0xA9] @ bytes_of ''\<newline>{"choices":[{"text":"b"}]}\<newline>''])) =
     [JObject [(js ''choices'', JArray [JObject [(js ''text'', JString (js ''a''))]])],
      JObject [(js ''choices'', JArray [JObject [(js ''text'', JString (js ''b''))]])]] \<and>
   decode_whole (concat [bytes_of ''{"choices":'', bytes_of ''[]}\<newline>'']) =
     js ''{"choices":[]}\<newline>''\<close>
proof -
  note chunk_boundaries[where parse = JSON_parse, THEN conjunct2, THEN conjunct2, THEN mp,
      OF conjI[OF boundary_example_texts conjI[OF boundary_example_lines boundary_example_whole]]]
  then have A: \<open>readStream JSON_parse (Some
      [[0xEF, 0xBB],
       [0xBF] @ bytes_of ''{"choices":[{"text":"a"}]}\<newline>  \<newline>'' @ [0xC3],
       [0xA9] @ bytes_of ''\<newline>{"choices":[{"text":"b"}]}\<newline>'']) =
     [Yielded (JObject [(js ''choices'', JArray [JObject [(js ''text'', JString (js ''a''))]])]),
      Logged [0xE9],
      Yielded (JObject [(js ''choices'', JArray [JObject [(js ''text'', JString (js ''b''))]])])] \<and>
   yielded (readStream JSON_parse (Some
      [[0xEF, 0xBB],
       [0xBF] @ bytes_of ''{"choices":[{"text":"a"}]}\<newline>  \<newline>'' @ [0xC3],
       [0xA9] @ bytes_of ''\<newline>{"choices":[{"text":"b"}]}\<newline>''])) =
     [JObject [(js ''choices'', JArray [JObject [(js ''text'', JString (js ''a''))]])],
      JObject [(js ''choices'', JArray [JObject [(js ''text'', JString (js ''b''))]])]]\<close>
    unfolding boundary_example_events boundary_example_yielded .
  note chunk_boundaries[THEN conjunct2, THEN conjunct1, THEN mp, OF ascii_example_bytes]
  then have B: \<open>decode_whole (concat [bytes_of ''{"choices":'', bytes_of ''[]}\<newline>'']) =
     js ''{"choices":[]}\<newline>''\<close>
    unfolding ascii_example_text .
  show ?thesis
    by (rule conjI[OF conjunct1[OF A] conjI[OF conjunct2[OF A] B]])
qed

text \<open>
  A record whose bytes are split over two chunks is lost: each half is a line of its
  own, \<open>JSON.parse\<close> rejects both, and nothing is yielded, while the same bytes in one
  chunk yield the record.
\<close>

theorem chunk_boundaries_counterexample:
  \<open>yielded (readStream JSON_parse (Some
     [bytes_of ''{"choices":[{"te'', bytes_of ''xt":"a"}]}\<newline>''])) = [] \<and>
   yielded (readStream JSON_parse (Some
     [bytes_of ''{"choices":[{"te'' @ bytes_of ''xt":"a"}]}\<newline>''])) =
     [JObject [(js ''choices'', JArray [JObject [(js ''text'', JString (js ''a''))]])]]\<close>
  by code_simp

text \<open>
  A character split over two chunks: the two bytes of \<open>U+00E9\<close> end the first chunk and
  start the second. The text comes out whole, and the record is lost all the same,
  since its line is split.
\<close>

lemma split_character:
  \<open>chunk_texts new_TextDecoder [bytes_of ''"a'' @ [0xC3], [0xA9] @ bytes_of ''"\<newline>''] =
     [js ''"a'', [0xE9] @ js ''"\<newline>''] \<and>
   yielded (readStream JSON_parse (Some [bytes_of ''"a'' @ [0xC3], [0xA9] @ bytes_of ''"\<newline>''])) = [] \<and>
   yielded (readStream JSON_parse (Some [bytes_of ''"a'' @ [0xC3] @ [0xA9] @ bytes_of ''"\<newline>''])) =
     [JString (js ''a'' @ [0xE9])]\<close>
  by code_simp

section \<open>The error watcher's extraction\<close>








text \<open>
  The test of line 185 also accepts \<open>Module not found\<close>, which the pattern of line 186
  cannot match; lines 220 and 221 take the identifier from a message with either text.
  From a body that holds \<open>Module not found\<close> and no \<open>Cannot find module\<close> with a
  quoted identifier after it, no message is extracted.
\<close>

lemma module_not_found_not_extracted:
  \<open>extract_error (js ''Module not found: Error: Cannot resolve 'axios'' @ [squote]) [js ''boom''] = [] \<and>
   regex_search quoted_at (js ''Module not found: Error: Cannot resolve 'axios'' @ [squote]) =
     Some (js ''axios'')\<close>
  by code_simp

section \<open>The page: the fix operation\<close>

text \<open>The loop over the records writes \<open>generatedCode\<close> and nothing else.\<close>

lemma consume_fields:
  "consume rs (fc, s) = (fc', s') \<Longrightarrow> s' = s\<lparr>generatedCode := generatedCode s'\<rparr>"
proof (induction rs arbitrary: fc s)
  case Nil
  then show ?case by simp
next
  case (Cons r rs)
  show ?case
  proof (cases "choices r")
    case None
    with Cons show ?thesis by simp
  next
    case (Some cs)
    with Cons.prems
    have "consume rs (accumulate_step fc cs, s\<lparr>generatedCode := accumulate_step fc cs\<rparr>)
            = (fc', s')"
      by (simp add: Let_def)
    from Cons.IH[OF this] show ?thesis
      by (cases s, cases s') auto
  qed
qed

text \<open>
  What the second half of \<open>fixCode\<close> leaves alone and what it always sets, whatever
  the response. When the response ends well the error flag is cleared as well.
\<close>

lemma fixCode_resume_state:
  "lastError (st (fixCode_resume r resp w)) = lastError (st w) \<and>
   autoFixAttempts (st (fixCode_resume r resp w)) = autoFixAttempts (st w) \<and>
   \<not> isGenerating (st (fixCode_resume r resp w)) \<and>
   \<not> isAutoFixing (st (fixCode_resume r resp w)) \<and>
   requests (fixCode_resume r resp w) = requests w \<and>
   awaiting (fixCode_resume r resp w) = awaiting w"
proof (cases resp)
  case NetworkFailure
  then show ?thesis by (simp add: fixCode_resume_def)
next
  case HttpError
  then show ?thesis by (simp add: fixCode_resume_def)
next
  case (Body rs ended)
  obtain fc s1 where c: "consume rs ([], st w) = (fc, s1)"
    by (cases "consume rs ([], st w)")
  from consume_fields[OF c] have s1: "s1 = (st w)\<lparr>generatedCode := generatedCode s1\<rparr>" .
  have "autoFixAttempts s1 = autoFixAttempts (st w)" "lastError s1 = lastError (st w)"
    by (subst s1, simp)+
  with Body c show ?thesis
    by (simp add: fixCode_resume_def)
qed

lemma fixCode_resume_success:
  "\<not> hasError (st (fixCode_resume r (Body rs True) w))"
proof -
  obtain fc s1 where c: "consume rs ([], st w) = (fc, s1)"
    by (cases "consume rs ([], st w)")
  then show ?thesis
    by (simp add: fixCode_resume_def)
qed

text \<open>
  C10. When the instruction that \<open>fixCode\<close> would send, \<open>customFixPrompt || fixPrompt\<close>,
  is empty or consists of white space only, the call returns at once: the world is
  left as it was, so no request is sent, no message is appended, and the artifact, the
  in-flight flag, the error state and the attempt counter are unchanged.
\<close>

theorem blank_fix_is_noop:
  assumes "\<forall>c\<in>set (fixRequest_of r customFixPrompt). isWhiteSpace c"
  shows "fixCode r customFixPrompt w = w"
proof -
  from assms have "trim (fixRequest_of r customFixPrompt) = []"
    by (simp add: trim_Nil_iff)
  then show ?thesis
    by (simp add: fixCode_def)
qed

theorem blank_fix_is_noop_witness:
  "submit_fix (type_fixPrompt (js ''  '') after_generation) =
     type_fixPrompt (js ''  '') after_generation"
proof -
  have "\<forall>c\<in>set (fixRequest_of (st (type_fixPrompt (js ''  '') after_generation)) None).
          isWhiteSpace c"
    by (simp add: fixRequest_of_def type_fixPrompt_def js_def isWhiteSpace_def)
  then show ?thesis
    unfolding submit_fix_def by (rule blank_fix_is_noop)
qed

section \<open>The page: the error watcher and the auto-fix controller\<close>

lemma autoFixPrompt_starts: "\<exists>rest. autoFixPrompt_of msg = 0x46 # rest"
  by (simp add: autoFixPrompt_of_def Let_def js_def)

lemma autoFixPrompt_not_blank: "trim (autoFixPrompt_of msg) \<noteq> []"
proof -
  obtain rest where "autoFixPrompt_of msg = 0x46 # rest"
    using autoFixPrompt_starts by blast
  moreover have "\<not> isWhiteSpace 0x46"
    by (simp add: isWhiteSpace_def)
  ultimately show ?thesis
    by (auto simp: trim_Nil_iff)
qed

text \<open>
  What \<open>checkForErrors\<close> does with an accepted message, for any render that passes the
  guards: the message is recorded, the attempt is counted and the fix request is sent.
\<close>

lemma checkForErrors_dispatch:
  assumes "\<not> isGenerating r" "\<not> isAutoFixing r" "autoFixAttempts r < 3"
    and "extract_error (case body of None \<Rightarrow> [] | Some t \<Rightarrow> t) els = msg"
    and "msg \<noteq> []" "msg \<noteq> lastError r"
  shows "checkForErrors r (Document body els) w =
     w\<lparr>st := (st w)\<lparr>lastError := msg, hasError := True, isAutoFixing := True,
                      autoFixAttempts := autoFixAttempts (st w) + 1, isGenerating := True,
                      messages := messages r @ [\<lparr>role = User, content = autoFixPrompt_of msg\<rparr>]\<rparr>,
       requests := requests w @
         [\<lparr>req_prompt = autoFixPrompt_of msg,
           req_messages = messages r @ [\<lparr>role = User, content = autoFixPrompt_of msg\<rparr>],
           req_currentCode = Some (generatedCode r)\<rparr>],
       awaiting := awaiting w @ [FixCode_call r]\<rparr>"
proof -
  have ne: "autoFixPrompt_of msg \<noteq> []"
    using autoFixPrompt_starts[of msg] by auto
  show ?thesis
    using assms
    by (simp add: checkForErrors_def autoFixError_def fixCode_def fixRequest_of_def
        autoFixPrompt_not_blank ne Let_def)
qed

lemma checkForErrors_ignore:
  assumes "isGenerating r \<or> isAutoFixing r \<or> 3 \<le> autoFixAttempts r \<or>
       extract_error (case body of None \<Rightarrow> [] | Some t \<Rightarrow> t) els = [] \<or>
       extract_error (case body of None \<Rightarrow> [] | Some t \<Rightarrow> t) els = lastError r"
  shows "checkForErrors r (Document body els) w = w"
  using assms by (auto simp: checkForErrors_def Let_def)

text \<open>The session of the examples, after the generation and after a first check.\<close>

lemma error_shown_message:
  "extract_error (js ''ReferenceError: foo is not defined'') [] = js ''foo is not defined''"
  by code_simp

lemma after_generation_world:
  "after_generation =
     \<lparr>st = \<lparr>prompt = [], generatedCode = js ''code'', isGenerating = False,
            messages = [\<lparr>role = User, content = js ''build a counter''\<rparr>,
                        \<lparr>role = Assistant, content = js ''code''\<rparr>],
            fixPrompt = [], showFixInput = True, hasError = False, isAutoFixing = False,
            autoFixAttempts = 0, lastError = []\<rparr>,
      requests = [\<lparr>req_prompt = js ''build a counter'', req_messages = [],
                    req_currentCode = None\<rparr>],
      awaiting = [], timeouts = [submit_render], alerts = []\<rparr>"
  by (simp add: after_generation_def submit_prompt_def type_prompt_def createApp_def
      deliver_def createApp_resume_def generated_def initial_world_def initial_state_def
      submit_render_def accumulate_step_def choice_text_def Let_def)

text \<open>
  The callback that \<open>createApp\<close> and \<open>fixCode\<close> hand to \<open>setTimeout\<close> calls the
  \<open>checkForErrors\<close> of the render in which they were called. In the session of the
  examples that is the render in which the prompt was submitted: its bindings say that
  nothing is in flight, that no attempt has been made and that no error is recorded,
  whatever the state is when the timeout fires.
\<close>

lemma fire_timeout_shown:
  assumes "timeouts w = [submit_render]"
  shows "fire_timeout error_shown w =
     w\<lparr>timeouts := [],
       st := (st w)\<lparr>lastError := js ''foo is not defined'', hasError := True,
           isAutoFixing := True, autoFixAttempts := autoFixAttempts (st w) + 1,
           isGenerating := True,
           messages := [\<lparr>role = User, content = autoFixPrompt_of (js ''foo is not defined'')\<rparr>]\<rparr>,
       requests := requests w @
         [\<lparr>req_prompt = autoFixPrompt_of (js ''foo is not defined''),
           req_messages = [\<lparr>role = User, content = autoFixPrompt_of (js ''foo is not defined'')\<rparr>],
           req_currentCode = Some []\<rparr>],
       awaiting := awaiting w @ [FixCode_call submit_render]\<rparr>"
proof -
  have js_ne: "js ''foo is not defined'' \<noteq> []"
    by (simp add: js_def)
  have "fire_timeout error_shown w =
      checkForErrors submit_render
        (Document (Some (js ''ReferenceError: foo is not defined'')) []) (w\<lparr>timeouts := []\<rparr>)"
    by (simp add: fire_timeout_def assms error_shown_def)
  also have "\<dots> =
     (w\<lparr>timeouts := []\<rparr>)\<lparr>st := (st (w\<lparr>timeouts := []\<rparr>))\<lparr>lastError := js ''foo is not defined'',
           hasError := True, isAutoFixing := True,
           autoFixAttempts := autoFixAttempts (st (w\<lparr>timeouts := []\<rparr>)) + 1,
           isGenerating := True,
           messages := messages submit_render @
             [\<lparr>role = User, content = autoFixPrompt_of (js ''foo is not defined'')\<rparr>]\<rparr>,
       requests := requests (w\<lparr>timeouts := []\<rparr>) @
         [\<lparr>req_prompt = autoFixPrompt_of (js ''foo is not defined''),
           req_messages = messages submit_render @
             [\<lparr>role = User, content = autoFixPrompt_of (js ''foo is not defined'')\<rparr>],
           req_currentCode = Some (generatedCode submit_render)\<rparr>],
       awaiting := awaiting (w\<lparr>timeouts := []\<rparr>) @ [FixCode_call submit_render]\<rparr>"
    by (rule checkForErrors_dispatch)
       (simp_all add: submit_render_def initial_state_def error_shown_message js_ne)
  finally show ?thesis
    by (simp add: submit_render_def initial_state_def)
qed

lemma auto_fix_round_shape:
  assumes "timeouts w = [submit_render]" "awaiting w = []"
  shows "timeouts (auto_fix_round w) = [submit_render] \<and> awaiting (auto_fix_round w) = [] \<and>
   autoFixAttempts (st (auto_fix_round w)) = autoFixAttempts (st w) + 1 \<and>
   length (requests (auto_fix_round w)) = length (requests w) + 1 \<and>
   lastError (st (auto_fix_round w)) = js ''foo is not defined''"
  unfolding auto_fix_round_def fire_timeout_shown[OF assms(1)]
  by (simp add: deliver_def assms fixCode_resume_def generated_def accumulate_step_def
      choice_text_def Let_def)

text \<open>
  C3 does not hold of the code. In the session of the examples the first check, made
  by the timeout that \<open>createApp\<close> set, extracts the message \<open>foo is not defined\<close>,
  records it as the last error and sends a fix request, which completes: two requests
  have been sent, none is waiting. The next check is made by the timeout that this
  \<open>fixCode\<close> set. The preview shows the same text, so the extracted message is the one
  recorded; the check sends one more fix request and counts a second attempt. Line 199
  compares the message with the \<open>lastError\<close> of the render in which the prompt was
  submitted, which is empty.
\<close>

theorem same_message_dispatched_again:
  "extract_error (js ''ReferenceError: foo is not defined'') [] = js ''foo is not defined'' \<and>
   lastError (st (auto_fix_round after_generation)) = js ''foo is not defined'' \<and>
   awaiting (auto_fix_round after_generation) = [] \<and>
   length (requests (auto_fix_round after_generation)) = 2 \<and>
   requests (fire_timeout error_shown (auto_fix_round after_generation)) =
     requests (auto_fix_round after_generation) @
       [\<lparr>req_prompt = autoFixPrompt_of (js ''foo is not defined''),
         req_messages = [\<lparr>role = User, content = autoFixPrompt_of (js ''foo is not defined'')\<rparr>],
         req_currentCode = Some []\<rparr>] \<and>
   autoFixAttempts (st (fire_timeout error_shown (auto_fix_round after_generation))) = 2"
proof -
  have t: "timeouts after_generation = [submit_render]" "awaiting after_generation = []"
    "autoFixAttempts (st after_generation) = 0" "length (requests after_generation) = 1"
    by (simp_all add: after_generation_world)
  define w1 where "w1 = auto_fix_round after_generation"
  have w1: "timeouts w1 = [submit_render]" "awaiting w1 = []" "autoFixAttempts (st w1) = 1"
    "length (requests w1) = 2" "lastError (st w1) = js ''foo is not defined''"
    using auto_fix_round_shape[OF t(1,2)] t(3,4) by (simp_all add: w1_def)
  have "requests (fire_timeout error_shown w1) =
     requests w1 @
       [\<lparr>req_prompt = autoFixPrompt_of (js ''foo is not defined''),
         req_messages = [\<lparr>role = User, content = autoFixPrompt_of (js ''foo is not defined'')\<rparr>],
         req_currentCode = Some []\<rparr>]"
    and "autoFixAttempts (st (fire_timeout error_shown w1)) = 2"
    unfolding fire_timeout_shown[OF w1(1)] by (simp_all add: w1)
  with w1 error_shown_message show ?thesis
    by (simp add: w1_def)
qed

text \<open>
  C9, as the code has it. The start-over handler sets the attempt counter to 0 and
  clears the error flag and the last error, and leaves the in-progress flag as it is.
  A fix that completes sets the in-progress flag to false and clears the error flag,
  and leaves the attempt counter and the last error as they are.
\<close>

theorem reset_on_restart_and_fix:
  "autoFixAttempts (st (startOver w)) = 0 \<and>
   \<not> hasError (st (startOver w)) \<and>
   lastError (st (startOver w)) = [] \<and>
   isAutoFixing (st (startOver w)) = isAutoFixing (st w) \<and>
   \<not> isAutoFixing (st (fixCode_resume r (Body rs True) w)) \<and>
   \<not> hasError (st (fixCode_resume r (Body rs True) w)) \<and>
   autoFixAttempts (st (fixCode_resume r (Body rs True) w)) = autoFixAttempts (st w) \<and>
   lastError (st (fixCode_resume r (Body rs True) w)) = lastError (st w)"
proof -
  have "autoFixAttempts (st (startOver w)) = 0 \<and> \<not> hasError (st (startOver w)) \<and>
      lastError (st (startOver w)) = [] \<and>
      isAutoFixing (st (startOver w)) = isAutoFixing (st w)"
    by (simp add: startOver_def)
  with fixCode_resume_state[of r "Body rs True" w] fixCode_resume_success[of r rs w]
  show ?thesis by simp
qed

text \<open>
  In the session of the examples: start over is pressed while the first automatic fix
  is in flight, and the in-progress flag stays set; or the first automatic fix
  completes, the user asks for a change and that fix completes, and the attempt
  counter is still 1 and the last error is still recorded.
\<close>

lemma trim_make_it_blue: "trim (js ''make it blue'') \<noteq> []"
  by (simp add: trim_def js_def isWhiteSpace_def)

theorem reset_counterexample:
  "isAutoFixing (st (startOver (fire_timeout error_shown after_generation))) \<and>
   autoFixAttempts (st (deliver 0 generated
      (submit_fix (type_fixPrompt (js ''make it blue'') (auto_fix_round after_generation))))) = 1 \<and>
   lastError (st (deliver 0 generated
      (submit_fix (type_fixPrompt (js ''make it blue'') (auto_fix_round after_generation))))) =
     js ''foo is not defined''"
proof -
  have t: "timeouts after_generation = [submit_render]" "awaiting after_generation = []"
    "autoFixAttempts (st after_generation) = 0"
    by (simp_all add: after_generation_world)
  have "isAutoFixing (st (startOver (fire_timeout error_shown after_generation)))"
    unfolding fire_timeout_shown[OF t(1)] by (simp add: startOver_def)
  moreover
  define w1 where "w1 = auto_fix_round after_generation"
  have w1: "awaiting w1 = []" "autoFixAttempts (st w1) = 1"
    "lastError (st w1) = js ''foo is not defined''"
    using auto_fix_round_shape[OF t(1,2)] t(3) by (simp_all add: w1_def)
  have "deliver 0 generated (submit_fix (type_fixPrompt (js ''make it blue'') w1)) =
      fixCode_resume (st (type_fixPrompt (js ''make it blue'') w1)) generated
        (w1\<lparr>st := (st w1)\<lparr>fixPrompt := js ''make it blue'', isGenerating := True,
               messages := messages (st w1) @ [\<lparr>role = User, content = js ''make it blue''\<rparr>]\<rparr>,
            requests := requests w1 @
              [\<lparr>req_prompt = js ''make it blue'',
                req_messages = messages (st w1) @ [\<lparr>role = User, content = js ''make it blue''\<rparr>],
                req_currentCode = Some (generatedCode (st w1))\<rparr>],
            awaiting := []\<rparr>)"
    by (simp add: submit_fix_def type_fixPrompt_def fixCode_def fixRequest_of_def
        trim_make_it_blue deliver_def w1 Let_def)
  then have "autoFixAttempts (st (deliver 0 generated
        (submit_fix (type_fixPrompt (js ''make it blue'') w1)))) = 1 \<and>
      lastError (st (deliver 0 generated
        (submit_fix (type_fixPrompt (js ''make it blue'') w1)))) = js ''foo is not defined''"
    using w1 by (simp add: fixCode_resume_state)
  ultimately show ?thesis
    by (simp add: w1_def)
qed

text \<open>
  Called with a render whose bindings are the current state, \<open>checkForErrors\<close> keeps
  the attempt counter at or below three.
\<close>

lemma current_render_keeps_bound:
  assumes "autoFixAttempts (st w) \<le> 3"
  shows "autoFixAttempts (st (checkForErrors (st w) p w)) \<le> 3"
proof (cases p)
  case (Document body els)
  show ?thesis
  proof (cases "isGenerating (st w) \<or> isAutoFixing (st w) \<or> 3 \<le> autoFixAttempts (st w) \<or>
       extract_error (case body of None \<Rightarrow> [] | Some t \<Rightarrow> t) els = [] \<or>
       extract_error (case body of None \<Rightarrow> [] | Some t \<Rightarrow> t) els = lastError (st w)")
    case True
    then have "checkForErrors (st w) (Document body els) w = w"
      by (rule checkForErrors_ignore)
    with assms Document show ?thesis by simp
  next
    case False
    then have "checkForErrors (st w) (Document body els) w =
      w\<lparr>st := (st w)\<lparr>lastError := extract_error (case body of None \<Rightarrow> [] | Some t \<Rightarrow> t) els,
           hasError := True, isAutoFixing := True,
           autoFixAttempts := autoFixAttempts (st w) + 1, isGenerating := True,
           messages := messages (st w) @
             [\<lparr>role = User, content = autoFixPrompt_of
                (extract_error (case body of None \<Rightarrow> [] | Some t \<Rightarrow> t) els)\<rparr>]\<rparr>,
         requests := requests w @
           [\<lparr>req_prompt = autoFixPrompt_of
               (extract_error (case body of None \<Rightarrow> [] | Some t \<Rightarrow> t) els),
             req_messages = messages (st w) @
               [\<lparr>role = User, content = autoFixPrompt_of
                  (extract_error (case body of None \<Rightarrow> [] | Some t \<Rightarrow> t) els)\<rparr>],
             req_currentCode = Some (generatedCode (st w))\<rparr>],
         awaiting := awaiting w @ [FixCode_call (st w)]\<rparr>"
      by (intro checkForErrors_dispatch) auto
    with False assms Document show ?thesis by simp
  qed
qed (simp_all add: checkForErrors_def assms)

text \<open>
  Called with such a render, \<open>checkForErrors\<close> does nothing when the message is the
  one recorded last.
\<close>

lemma current_render_ignores_repeat:
  assumes "extract_error (case body of None \<Rightarrow> [] | Some t \<Rightarrow> t) els = lastError (st w)"
  shows "checkForErrors (st w) (Document body els) w = w"
  using assms by (intro checkForErrors_ignore) simp

text \<open>
  C2 does not hold of the code. In the session of the examples the preview shows an
  error at every check. After every round the timeout of the render in which the prompt
  was submitted is pending again and no call is waiting; the attempt counter after
  \<open>n\<close> rounds is \<open>n\<close>, and \<open>n + 1\<close> requests have been sent. So the fourth round
  sends a fix request with the counter at three and raises it to four.
\<close>

theorem auto_fix_not_bounded:
  "timeouts ((auto_fix_round ^^ n) after_generation) = [submit_render] \<and>
   awaiting ((auto_fix_round ^^ n) after_generation) = [] \<and>
   autoFixAttempts (st ((auto_fix_round ^^ n) after_generation)) = n \<and>
   length (requests ((auto_fix_round ^^ n) after_generation)) = n + 1"
proof (induction n)
  case 0
  then show ?case by (simp add: after_generation_world)
next
  case (Suc n)
  then have "timeouts ((auto_fix_round ^^ n) after_generation) = [submit_render]"
    and "awaiting ((auto_fix_round ^^ n) after_generation) = []"
    by simp_all
  from auto_fix_round_shape[OF this] Suc show ?case
    by simp
qed

end
